theory Spec2Isabelle
  imports Main "HOL-Library.Dlist"
begin

section \<open>The HTTP server of std/http/server.ts and the application module\<close>

text \<open>
  The class \<open>Server\<close> keeps three private fields that change: \<open>#closed\<close>,
  \<open>#listeners\<close> and \<open>#httpConnections\<close>. Every method is modelled as a function on a
  record of these fields. The calls a method makes on the outside world (closing a
  resource, waiting for a delay, binding a socket, sending a response, printing) are
  appended to the field \<open>effects\<close>, which is not a field of the class: it is the trace
  of what the server did, kept with the state so that each method maps a state to a state.

  An \<open>async\<close> method runs until an \<open>await\<close>, is suspended, and is resumed with the
  value the awaited promise settles to. It is modelled as a function of a \<^emph>\<open>script\<close>: the
  list of the settlements of its awaits, in order, each with what the other tasks of the
  event loop did to the server while the method was suspended. A method whose script
  ends at an await is still suspended: it yields \<open>Pending\<close>.
\<close>

subsection \<open>Values\<close>

datatype deno_error =
    BadResource
  | InvalidData
  | UnexpectedEof
  | ConnectionReset
  | NotConnected
  | AddrInUse
  | PermissionDenied
  | Http string
  | Error string
  | ReferenceError string

type_synonym listener = nat
type_synonym httpConn = nat
type_synonym request = string

record response =
  status :: nat
  body :: string

record conn =
  localAddr :: string
  remoteAddr :: string

type_synonym connInfo = "string \<times> string"

datatype action =
    ListenerClose listener
  | HttpConnClose httpConn
  | Delay nat
  | Listen nat string
  | ListenTls nat string string string
  | RespondWith request response
  | ConsoleLog string
  | ConsoleError deno_error

text \<open>
  A handler is user code: it may print, and it returns a response or raises. It is
  modelled by the effects it performs and its result.
\<close>

type_synonym handler_fn = "request \<Rightarrow> connInfo \<Rightarrow> action list \<times> (deno_error + response)"
type_synonym onError_fn = "deno_error \<Rightarrow> action list \<times> (deno_error + response)"

record requestEvent =
  request :: request
  respondWith :: "response \<Rightarrow> deno_error option"

text \<open>
  A JavaScript \<open>Set\<close> holds no element twice and is iterated in insertion order.
  It is a \<^typ>\<open>'a dlist\<close>; \<^const>\<open>Dlist.insert\<close> puts a new element in front, so the
  insertion order is the reverse of the list.
\<close>

definition elements :: "'a dlist \<Rightarrow> 'a list" where
  "elements xs = rev (list_of_dlist xs)"

record server =
  port :: "nat option"
  host :: "string option"
  handler :: handler_fn
  closed :: bool
  listeners :: "listener dlist"
  httpConnections :: "httpConn dlist"
  onError :: onError_fn
  effects :: "action list"

record serverInit =
  init_port :: "nat option"
  init_hostname :: "string option"
  init_handler :: handler_fn
  init_onError :: "onError_fn option"

datatype outcome = Returned | Threw deno_error | Pending

subsection \<open>Constants\<close>

definition ERROR_SERVER_CLOSED :: string where
  "ERROR_SERVER_CLOSED = ''Server closed''"

definition HTTP_PORT :: nat where
  "HTTP_PORT = 80"

definition HTTPS_PORT :: nat where
  "HTTPS_PORT = 443"

definition INITIAL_ACCEPT_BACKOFF_DELAY :: nat where
  "INITIAL_ACCEPT_BACKOFF_DELAY = 5"

definition MAX_ACCEPT_BACKOFF_DELAY :: nat where
  "MAX_ACCEPT_BACKOFF_DELAY = 1000"

subsection \<open>The constructor and the tracking sets\<close>

definition perform :: "action \<Rightarrow> server \<Rightarrow> server" where
  "perform a s = s\<lparr>effects := effects s @ [a]\<rparr>"

definition performs :: "action list \<Rightarrow> server \<Rightarrow> server" where
  "performs as s = s\<lparr>effects := effects s @ as\<rparr>"

definition defaultOnError :: onError_fn where
  "defaultOnError error =
     ([ConsoleError error], Inr \<lparr>status = 500, body = ''Internal Server Error''\<rparr>)"

definition Server :: "serverInit \<Rightarrow> server" where
  "Server serverInit =
     \<lparr>port = init_port serverInit,
      host = init_hostname serverInit,
      handler = init_handler serverInit,
      closed = False,
      listeners = Dlist.empty,
      httpConnections = Dlist.empty,
      onError = (case init_onError serverInit of None \<Rightarrow> defaultOnError | Some f \<Rightarrow> f),
      effects = []\<rparr>"

definition trackListener :: "listener \<Rightarrow> server \<Rightarrow> server" where
  "trackListener listener s = s\<lparr>listeners := Dlist.insert listener (listeners s)\<rparr>"

definition untrackListener :: "listener \<Rightarrow> server \<Rightarrow> server" where
  "untrackListener listener s = s\<lparr>listeners := Dlist.remove listener (listeners s)\<rparr>"

definition trackHttpConnection :: "httpConn \<Rightarrow> server \<Rightarrow> server" where
  "trackHttpConnection httpConn s =
     s\<lparr>httpConnections := Dlist.insert httpConn (httpConnections s)\<rparr>"

definition untrackHttpConnection :: "httpConn \<Rightarrow> server \<Rightarrow> server" where
  "untrackHttpConnection httpConn s =
     s\<lparr>httpConnections := Dlist.remove httpConn (httpConnections s)\<rparr>"

text \<open>
  \<open>httpConn.close()\<close> and \<open>listener.close()\<close> raise when the resource is already
  closed; both call sites swallow that, so only the call itself is recorded.
\<close>

definition closeHttpConn :: "httpConn \<Rightarrow> server \<Rightarrow> server" where
  "closeHttpConn httpConn s = perform (HttpConnClose httpConn) (untrackHttpConnection httpConn s)"

subsection \<open>close\<close>

text \<open>
  The second loop of \<open>close\<close> deletes from \<open>#httpConnections\<close> the element it is
  visiting; a \<open>Set\<close> iterator still visits every other element once, so the loop runs
  over the elements the set held when it started.
\<close>

definition close :: "server \<Rightarrow> deno_error + server" where
  "close s =
     (if closed s then Inl (Http ERROR_SERVER_CLOSED)
      else
        let s1 = s\<lparr>closed := True\<rparr>;
            s2 = fold (\<lambda>listener. perform (ListenerClose listener)) (elements (listeners s1)) s1;
            s3 = s2\<lparr>listeners := Dlist.empty\<rparr>;
            s4 = fold closeHttpConn (elements (httpConnections s3)) s3;
            s5 = s4\<lparr>httpConnections := Dlist.empty\<rparr>
        in Inr s5)"

subsection \<open>What other tasks do during an await\<close>

text \<open>
  The three fields are private, so while a method is suspended they change only through
  the class's own code running in other tasks: a call of \<open>close\<close> (by the user or by an
  abort signal), the entry and the \<open>finally\<close> block of another \<open>serve\<close>, the tracking of
  a connection by another accept loop, and \<open>#closeHttpConn\<close> at the end of a
  connection's request loop or after a failed send.
\<close>

datatype other =
    OtherClose
  | OtherTrackListener listener
  | OtherServeFinally listener
  | OtherTrackHttpConnection httpConn
  | OtherCloseHttpConn httpConn

definition serve_finally :: "listener \<Rightarrow> server \<Rightarrow> server" where
  "serve_finally listener s = perform (ListenerClose listener) (untrackListener listener s)"

fun interfere1 :: "other \<Rightarrow> server \<Rightarrow> server" where
  "interfere1 OtherClose s = (case close s of Inl _ \<Rightarrow> s | Inr s' \<Rightarrow> s')"
| "interfere1 (OtherTrackListener listener) s = trackListener listener s"
| "interfere1 (OtherServeFinally listener) s = serve_finally listener s"
| "interfere1 (OtherTrackHttpConnection httpConn) s = trackHttpConnection httpConn s"
| "interfere1 (OtherCloseHttpConn httpConn) s = closeHttpConn httpConn s"

definition interfere :: "other list \<Rightarrow> server \<Rightarrow> server" where
  "interfere during s = fold interfere1 during s"

datatype 'r await = Await "other list" 'r

subsection \<open>respond\<close>

text \<open>
  The second \<open>try\<close> block of \<open>#respond\<close>: send the response; if that fails, close the
  connection.
\<close>

fun respond_send ::
  "requestEvent \<Rightarrow> httpConn \<Rightarrow> response \<Rightarrow> other list list \<Rightarrow> server \<Rightarrow> outcome \<times> server" where
  "respond_send requestEvent httpConn response [] s =
     (Pending, perform (RespondWith (request requestEvent) response) s)"
| "respond_send requestEvent httpConn response (during # script) s =
     (let s1 = interfere during (perform (RespondWith (request requestEvent) response) s)
      in case respondWith requestEvent response of
           None \<Rightarrow> (Returned, s1)
         | Some _ \<Rightarrow> (Returned, closeHttpConn httpConn s1))"

text \<open>
  \<open>#respond\<close>: the handler is called at once and its promise awaited; if it raises,
  \<open>#onError\<close> is called and awaited; then the response is sent. An error raised by
  \<open>#onError\<close> is not caught: the promise of \<open>#respond\<close> is rejected with it.
\<close>

fun respond ::
  "requestEvent \<Rightarrow> httpConn \<Rightarrow> connInfo \<Rightarrow> other list list \<Rightarrow> server \<Rightarrow> outcome \<times> server" where
  "respond requestEvent httpConn connInfo [] s =
     (Pending, performs (fst (handler s (request requestEvent) connInfo)) s)"
| "respond requestEvent httpConn connInfo (during # script) s =
     (let (fx, r) = handler s (request requestEvent) connInfo;
          s1 = interfere during (performs fx s)
      in case r of
           Inr response \<Rightarrow> respond_send requestEvent httpConn response script s1
         | Inl error \<Rightarrow>
             (let (fx', r') = onError s1 error;
                  s2 = performs fx' s1
              in case script of
                   [] \<Rightarrow> (Pending, s2)
                 | during' # script' \<Rightarrow>
                     (let s3 = interfere during' s2
                      in case r' of
                           Inl error' \<Rightarrow> (Threw error', s3)
                         | Inr response \<Rightarrow> respond_send requestEvent httpConn response script' s3)))"

subsection \<open>serveHttp\<close>

datatype next_result =
    NextRequest requestEvent
  | NoRequest
  | NextRequestFailed deno_error

text \<open>
  \<open>#serveHttp\<close> does not await \<open>#respond\<close>: the call runs \<open>#respond\<close> up to its first
  await and the promise is dropped, but the call goes on whenever the promise it awaits
  settles, while the loop is suspended at \<open>nextRequest()\<close>. So the model of the loop
  keeps the calls of \<open>#respond\<close> it has started, each with the await it is suspended
  at and what that await settles to.
\<close>

datatype respond_task =
    AwaitHandler requestEvent httpConn "deno_error + response"
  | AwaitOnError requestEvent httpConn "deno_error + response"
  | AwaitRespondWith requestEvent httpConn response

text \<open>\<open>#respond\<close> from its call to its first await.\<close>

definition respond_start ::
  "requestEvent \<Rightarrow> httpConn \<Rightarrow> connInfo \<Rightarrow> server \<Rightarrow> respond_task \<times> server" where
  "respond_start requestEvent httpConn connInfo s =
     (AwaitHandler requestEvent httpConn (snd (handler s (request requestEvent) connInfo)),
      performs (fst (handler s (request requestEvent) connInfo)) s)"

text \<open>
  \<open>#respond\<close> from the settlement of one await to the next await, or to its end
  (\<open>Inl\<close>, with the outcome of the call).
\<close>

fun respond_resume :: "respond_task \<Rightarrow> server \<Rightarrow> (outcome + respond_task) \<times> server" where
  "respond_resume (AwaitHandler requestEvent httpConn (Inr response)) s =
     (Inr (AwaitRespondWith requestEvent httpConn response),
      perform (RespondWith (request requestEvent) response) s)"
| "respond_resume (AwaitHandler requestEvent httpConn (Inl error)) s =
     (Inr (AwaitOnError requestEvent httpConn (snd (onError s error))),
      performs (fst (onError s error)) s)"
| "respond_resume (AwaitOnError requestEvent httpConn (Inl error)) s = (Inl (Threw error), s)"
| "respond_resume (AwaitOnError requestEvent httpConn (Inr response)) s =
     (Inr (AwaitRespondWith requestEvent httpConn response),
      perform (RespondWith (request requestEvent) response) s)"
| "respond_resume (AwaitRespondWith requestEvent httpConn response) s =
     (case respondWith requestEvent response of
        None \<Rightarrow> (Inl Returned, s)
      | Some _ \<Rightarrow> (Inl Returned, closeHttpConn httpConn s))"

text \<open>
  The same call driven by a script, as \<open>respond\<close> is: each await settles after what
  the other tasks did.
\<close>

fun respond_run :: "respond_task \<Rightarrow> other list list \<Rightarrow> server \<Rightarrow> outcome \<times> server" where
  "respond_run task [] s = (Pending, s)"
| "respond_run task (during # script) s =
     (case respond_resume task (interfere during s) of
        (Inl out, s') \<Rightarrow> (out, s')
      | (Inr task', s') \<Rightarrow> respond_run task' script s')"

text \<open>
  What happens while the loop is suspended at \<open>nextRequest()\<close>: another task changes
  the server, or the await of the \<open>i\<close>-th call of \<open>#respond\<close> of this connection
  settles (calls are numbered from 0 in the order of their requests). A call that has
  ended is \<open>None\<close>; settling it, or a call that was never started, does nothing.
\<close>

datatype meanwhile = Other other | Resume nat

datatype request_await = RequestAwait "meanwhile list" next_result

fun meanwhile_step ::
  "meanwhile \<Rightarrow> respond_task option list \<times> server \<Rightarrow> respond_task option list \<times> server" where
  "meanwhile_step (Other x) (calls, s) = (calls, interfere1 x s)"
| "meanwhile_step (Resume i) (calls, s) =
     (if i < length calls then
        (case calls ! i of
           None \<Rightarrow> (calls, s)
         | Some task \<Rightarrow>
             (case respond_resume task s of
                (Inl out, s') \<Rightarrow> (calls[i := None], s')
              | (Inr task', s') \<Rightarrow> (calls[i := Some task'], s')))
      else (calls, s))"

fun serveHttp_loop ::
  "httpConn \<Rightarrow> connInfo \<Rightarrow> request_await list \<Rightarrow> respond_task option list \<Rightarrow> server
     \<Rightarrow> outcome \<times> server" where
  "serveHttp_loop httpConn connInfo [] calls s =
     (if closed s then (Returned, closeHttpConn httpConn s) else (Pending, s))"
| "serveHttp_loop httpConn connInfo (RequestAwait during r # rest) calls s =
     (if closed s then (Returned, closeHttpConn httpConn s)
      else
        let (calls1, s1) = fold meanwhile_step during (calls, s)
        in case r of
             NextRequestFailed _ \<Rightarrow> (Returned, closeHttpConn httpConn s1)
           | NoRequest \<Rightarrow> (Returned, closeHttpConn httpConn s1)
           | NextRequest requestEvent \<Rightarrow>
               (let (task, s2) = respond_start requestEvent httpConn connInfo s1
                in serveHttp_loop httpConn connInfo rest (calls1 @ [Some task]) s2))"

definition serveHttp ::
  "httpConn \<Rightarrow> connInfo \<Rightarrow> request_await list \<Rightarrow> server \<Rightarrow> outcome \<times> server" where
  "serveHttp httpConn connInfo script s = serveHttp_loop httpConn connInfo script [] s"

subsection \<open>accept\<close>

text \<open>
  \<open>listener.accept()\<close> settles to a connection, which \<open>Deno.serveHttp\<close> upgrades to an
  HTTP connection or refuses (\<open>None\<close>), or to an error. A transient error is followed
  by \<open>await delay(...)\<close>: the error carries what the other tasks did during that delay.
\<close>

datatype accept_result =
    Accepted conn "httpConn option"
  | AcceptFailed deno_error "other list"

fun transient :: "deno_error \<Rightarrow> bool" where
  "transient BadResource = True"
| "transient InvalidData = True"
| "transient UnexpectedEof = True"
| "transient ConnectionReset = True"
| "transient NotConnected = True"
| "transient _ = False"

text \<open>
  The new value of \<open>acceptBackoffDelay\<close> after a transient error. \<open>!acceptBackoffDelay\<close>
  holds for \<open>undefined\<close> and for 0.
\<close>

definition backoff :: "nat option \<Rightarrow> nat" where
  "backoff acceptBackoffDelay =
     (let d = (case acceptBackoffDelay of
                 None \<Rightarrow> INITIAL_ACCEPT_BACKOFF_DELAY
               | Some v \<Rightarrow> if v = 0 then INITIAL_ACCEPT_BACKOFF_DELAY else v * 2)
      in if d \<ge> MAX_ACCEPT_BACKOFF_DELAY then MAX_ACCEPT_BACKOFF_DELAY else d)"

fun accept_loop ::
  "listener \<Rightarrow> accept_result await list \<Rightarrow> nat option \<Rightarrow> server \<Rightarrow> outcome \<times> server" where
  "accept_loop listener [] acceptBackoffDelay s =
     (if closed s then (Returned, s) else (Pending, s))"
| "accept_loop listener (Await during r # rest) acceptBackoffDelay s =
     (if closed s then (Returned, s)
      else
        let s1 = interfere during s
        in case r of
             AcceptFailed error during_delay \<Rightarrow>
               if transient error then
                 (let d = backoff acceptBackoffDelay;
                      s2 = interfere during_delay (perform (Delay d) s1)
                  in accept_loop listener rest (Some d) s2)
               else (Threw error, s1)
           | Accepted conn upgraded \<Rightarrow>
               (case upgraded of
                  None \<Rightarrow> accept_loop listener rest None s1
                | Some httpConn \<Rightarrow>
                    (let s2 = trackHttpConnection httpConn s1;
                         connInfo = (localAddr conn, remoteAddr conn);
                         s3 = snd (serveHttp httpConn connInfo [] s2)
                     in accept_loop listener rest None s3)))"

definition accept :: "listener \<Rightarrow> accept_result await list \<Rightarrow> server \<Rightarrow> outcome \<times> server" where
  "accept listener script s = accept_loop listener script None s"

subsection \<open>serve, listenAndServe, listenAndServeTls\<close>

text \<open>The \<open>try\<close> ... \<open>finally\<close> statement of \<open>serve\<close>.\<close>

definition serve_try :: "listener \<Rightarrow> accept_result await list \<Rightarrow> server \<Rightarrow> outcome \<times> server" where
  "serve_try listener script s =
     (case accept listener script s of
        (Pending, s1) \<Rightarrow> (Pending, s1)
      | (out, s1) \<Rightarrow> (out, serve_finally listener s1))"

definition serve :: "listener \<Rightarrow> accept_result await list \<Rightarrow> server \<Rightarrow> outcome \<times> server" where
  "serve listener script s =
     (if closed s then (Threw (Http ERROR_SERVER_CLOSED), s)
      else serve_try listener script (trackListener listener s))"

text \<open>
  \<open>Deno.listen\<close> and \<open>Deno.listenTls\<close> belong to the runtime: they are parameters, from
  the port and the hostname to a listener or an error.
\<close>

definition listenAndServe ::
  "(nat \<Rightarrow> string \<Rightarrow> deno_error + listener) \<Rightarrow> accept_result await list \<Rightarrow> server
     \<Rightarrow> outcome \<times> server" where
  "listenAndServe Deno_listen script s =
     (if closed s then (Threw (Http ERROR_SERVER_CLOSED), s)
      else
        let p = (case port s of None \<Rightarrow> HTTP_PORT | Some p \<Rightarrow> p);
            h = (case host s of None \<Rightarrow> ''0.0.0.0'' | Some h \<Rightarrow> h);
            s1 = perform (Listen p h) s
        in case Deno_listen p h of
             Inl error \<Rightarrow> (Threw error, s1)
           | Inr listener \<Rightarrow> serve listener script s1)"

definition listenAndServeTls ::
  "(nat \<Rightarrow> string \<Rightarrow> string \<Rightarrow> string \<Rightarrow> deno_error + listener) \<Rightarrow> string \<Rightarrow> string
     \<Rightarrow> accept_result await list \<Rightarrow> server \<Rightarrow> outcome \<times> server" where
  "listenAndServeTls Deno_listenTls certFile keyFile script s =
     (if closed s then (Threw (Http ERROR_SERVER_CLOSED), s)
      else
        let p = (case port s of None \<Rightarrow> HTTPS_PORT | Some p \<Rightarrow> p);
            h = (case host s of None \<Rightarrow> ''0.0.0.0'' | Some h \<Rightarrow> h);
            s1 = perform (ListenTls p h certFile keyFile) s
        in case Deno_listenTls p h certFile keyFile of
             Inl error \<Rightarrow> (Threw error, s1)
           | Inr listener \<Rightarrow> serve listener script s1)"

subsection \<open>The exported function serve\<close>

text \<open>
  The exported function \<open>serve\<close> is \<open>serve_top\<close> here, the method of the class
  keeping the name. The options of \<open>serve\<close>. \<open>"onListen" in options\<close> tells an absent key from a key
  whose value is \<open>undefined\<close> or \<open>null\<close>. A callback is user code: it performs effects
  and may raise. The option \<open>signal\<close> is not a field here: an abort calls
  \<open>server.close()\<close> from another task, which is \<^const>\<open>OtherClose\<close> in a script.
\<close>

datatype onListen_option =
    NoOnListen
  | OnListenNullish
  | OnListenCallback "nat \<Rightarrow> string \<Rightarrow> action list \<times> deno_error option"

record serveInit =
  opt_port :: "nat option"
  opt_hostname :: "string option"
  opt_onError :: "onError_fn option"
  opt_onListen :: onListen_option

definition hostnameForDisplay :: "string \<Rightarrow> string" where
  "hostnameForDisplay hostname = (if hostname = ''0.0.0.0'' then ''localhost'' else hostname)"

fun show_nat :: "nat \<Rightarrow> string" where
  "show_nat n =
     (if n < 10 then [''0123456789'' ! n]
      else show_nat (n div 10) @ [''0123456789'' ! (n mod 10)])"

definition listening_message :: "string \<Rightarrow> nat \<Rightarrow> string" where
  "listening_message hostname p =
     ''Listening on http://'' @ hostnameForDisplay hostname @ '':'' @ show_nat p @ ''/''"

text \<open>
  \<open>const s = server.listenAndServe()\<close> runs \<open>listenAndServe\<close> up to its first await
  (the empty script): \<open>s\<close> is then pending, or already rejected when the server could
  not bind. The message is printed next. \<open>return await s\<close> resumes the pending call,
  which is inside the \<open>try\<close> of \<open>Server.serve\<close> at the first \<open>listener.accept()\<close>.
\<close>

definition serve_top ::
  "handler_fn \<Rightarrow> serveInit \<Rightarrow> (nat \<Rightarrow> string \<Rightarrow> deno_error + listener)
     \<Rightarrow> accept_result await list \<Rightarrow> outcome \<times> server" where
  "serve_top user_handler options Deno_listen script =
     (let p = (case opt_port options of None \<Rightarrow> 8000 | Some p \<Rightarrow> p);
          hostname = (case opt_hostname options of None \<Rightarrow> ''0.0.0.0'' | Some h \<Rightarrow> h);
          server0 = Server \<lparr>init_port = Some p, init_hostname = Some hostname,
                      init_handler = user_handler, init_onError = opt_onError options\<rparr>;
          (s, server1) = listenAndServe Deno_listen [] server0;
          (raised, server2) =
            (case opt_onListen options of
               NoOnListen \<Rightarrow> (None, perform (ConsoleLog (listening_message hostname p)) server1)
             | OnListenNullish \<Rightarrow> (None, server1)
             | OnListenCallback f \<Rightarrow> (snd (f p hostname), performs (fst (f p hostname)) server1))
      in case raised of
           Some error \<Rightarrow> (Threw error, server2)
         | None \<Rightarrow>
             (case (s, Deno_listen p hostname) of
                (Pending, Inr listener) \<Rightarrow> serve_try listener script server2
              | _ \<Rightarrow> (s, server2)))"

subsection \<open>The application module\<close>

text \<open>
  The module imports \<open>serve\<close> and declares \<open>app\<close>, \<open>session\<close> and \<open>handleRequest\<close>. The
  names \<open>Application\<close> and \<open>Session\<close> are neither imported nor declared, so they are
  looked up in the global scope of the runtime, which is a parameter: a name is unbound
  (\<open>None\<close>) or bound to a constructor, whose call returns or raises.
\<close>

definition new_global :: "(string \<Rightarrow> deno_error option option) \<Rightarrow> string \<Rightarrow> deno_error option" where
  "new_global globalThis name =
     (case globalThis name of
        None \<Rightarrow> Some (ReferenceError (name @ '' is not defined''))
      | Some raised \<Rightarrow> raised)"

definition handleRequest :: handler_fn where
  "handleRequest req connInfo =
     ([ConsoleLog ''Responding with Hello world!''],
      Inr \<lparr>status = 200, body = ''Hello wora ld! aa''\<rparr>)"

text \<open>
  The evaluation of the module: its outcome, and the server that \<open>serve\<close> started, if
  the call was reached. The promise of \<open>serve\<close> is not awaited by the module.
\<close>

definition main_module ::
  "(string \<Rightarrow> deno_error option option) \<Rightarrow> (nat \<Rightarrow> string \<Rightarrow> deno_error + listener)
     \<Rightarrow> accept_result await list \<Rightarrow> outcome \<times> server option" where
  "main_module globalThis Deno_listen script =
     (case new_global globalThis ''Application'' of
        Some error \<Rightarrow> (Threw error, None)
      | None \<Rightarrow>
          (case new_global globalThis ''Session'' of
             Some error \<Rightarrow> (Threw error, None)
           | None \<Rightarrow>
               (Returned,
                Some (snd (serve_top handleRequest
                  \<lparr>opt_port = Some 7777, opt_hostname = None, opt_onError = None,
                   opt_onListen = NoOnListen\<rparr> Deno_listen script)))))"

subsection \<open>Sequences of calls, and an example server\<close>

text \<open>
  A call of any method of the class, public or private, with the script of its awaits;
  \<open>run_call\<close> is the state the call leaves.
\<close>

datatype call =
    CallServe listener "accept_result await list"
  | CallListenAndServe "nat \<Rightarrow> string \<Rightarrow> deno_error + listener" "accept_result await list"
  | CallListenAndServeTls "nat \<Rightarrow> string \<Rightarrow> string \<Rightarrow> string \<Rightarrow> deno_error + listener"
      string string "accept_result await list"
  | CallClose
  | CallAccept listener "accept_result await list"
  | CallServeHttp httpConn connInfo "request_await list"
  | CallRespond requestEvent httpConn connInfo "other list list"
  | CallCloseHttpConn httpConn
  | CallTrackListener listener
  | CallUntrackListener listener
  | CallTrackHttpConnection httpConn
  | CallUntrackHttpConnection httpConn

fun run_call :: "call \<Rightarrow> server \<Rightarrow> server" where
  "run_call (CallServe listener script) s = snd (serve listener script s)"
| "run_call (CallListenAndServe Deno_listen script) s = snd (listenAndServe Deno_listen script s)"
| "run_call (CallListenAndServeTls Deno_listenTls certFile keyFile script) s =
     snd (listenAndServeTls Deno_listenTls certFile keyFile script s)"
| "run_call CallClose s = (case close s of Inl _ \<Rightarrow> s | Inr s' \<Rightarrow> s')"
| "run_call (CallAccept listener script) s = snd (accept listener script s)"
| "run_call (CallServeHttp httpConn connInfo script) s = snd (serveHttp httpConn connInfo script s)"
| "run_call (CallRespond requestEvent httpConn connInfo script) s =
     snd (respond requestEvent httpConn connInfo script s)"
| "run_call (CallCloseHttpConn httpConn) s = closeHttpConn httpConn s"
| "run_call (CallTrackListener listener) s = trackListener listener s"
| "run_call (CallUntrackListener listener) s = untrackListener listener s"
| "run_call (CallTrackHttpConnection httpConn) s = trackHttpConnection httpConn s"
| "run_call (CallUntrackHttpConnection httpConn) s = untrackHttpConnection httpConn s"

text \<open>A server made by the constructor that tracks two listeners and two connections.\<close>

definition example_server :: server where
  "example_server =
     trackHttpConnection 8 (trackHttpConnection 7 (trackListener 2 (trackListener 1
       (Server \<lparr>init_port = Some 7777, init_hostname = None, init_handler = handleRequest,
                init_onError = None\<rparr>))))"

subsection \<open>The backoff delays as the specification words them\<close>

text \<open>The delays among the effects, in order.\<close>

fun delays :: "action list \<Rightarrow> nat list" where
  "delays [] = []"
| "delays (Delay d # as) = d # delays as"
| "delays (_ # as) = delays as"

text \<open>What an await of a script settled to.\<close>

fun settled :: "'r await \<Rightarrow> 'r" where
  "settled (Await during r) = r"

text \<open>
  The specification: the delays after consecutive transient errors are 5, 10, 20, ...,
  capped at 1000; a successful accept starts the sequence again; another error ends the
  loop. \<open>k\<close> counts the consecutive transient errors so far.
\<close>

fun spec_backoff_delays :: "nat \<Rightarrow> accept_result list \<Rightarrow> nat list" where
  "spec_backoff_delays k [] = []"
| "spec_backoff_delays k (Accepted c upgraded # rs) = spec_backoff_delays 0 rs"
| "spec_backoff_delays k (AcceptFailed error during_delay # rs) =
     (if transient error then min (5 * 2 ^ k) 1000 # spec_backoff_delays (Suc k) rs else [])"

text \<open>No other task closes the server during this await, nor during the delay after it.\<close>

fun quiet :: "accept_result await \<Rightarrow> bool" where
  "quiet (Await during (Accepted c upgraded)) = (OtherClose \<notin> set during)"
| "quiet (Await during (AcceptFailed error during_delay)) =
     (OtherClose \<notin> set during \<and> OtherClose \<notin> set during_delay)"

text \<open>The value of \<open>acceptBackoffDelay\<close> after \<open>k\<close> consecutive transient errors.\<close>

definition backoff_after :: "nat \<Rightarrow> nat option" where
  "backoff_after k = (if k = 0 then None else Some (min (5 * 2 ^ (k - 1)) 1000))"

text \<open>The first error of a script that is not transient.\<close>

fun first_fatal :: "accept_result list \<Rightarrow> deno_error option" where
  "first_fatal [] = None"
| "first_fatal (Accepted c upgraded # rs) = first_fatal rs"
| "first_fatal (AcceptFailed error during_delay # rs) =
     (if transient error then first_fatal rs else Some error)"

text \<open>Scripts of accept results used as examples.\<close>

definition ten_resets_then_accept :: "accept_result await list" where
  "ten_resets_then_accept =
     replicate 10 (Await [] (AcceptFailed ConnectionReset [])) @
     [Await [] (Accepted \<lparr>localAddr = ''0.0.0.0:7777'', remoteAddr = ''10.0.0.1:4000''\<rparr> (Some 9)),
      Await [] (AcceptFailed UnexpectedEof [OtherCloseHttpConn 9]),
      Await [] (AcceptFailed BadResource [])]"

definition reset_then_fatal :: "accept_result await list" where
  "reset_then_fatal =
     [Await [] (AcceptFailed ConnectionReset []),
      Await [] (AcceptFailed (Error ''Too many open files (os error 24)'') []),
      Await [] (AcceptFailed ConnectionReset [])]"

definition reset_while_closing :: "accept_result await list" where
  "reset_while_closing = [Await [OtherClose] (AcceptFailed BadResource [])]"

subsection \<open>Example handlers and request events\<close>

text \<open>
  A handler that prints and raises, a server made with it and the default error
  handler, and a request event whose response can be sent and one whose connection is
  gone.
\<close>

definition failing_handler :: handler_fn where
  "failing_handler req connInfo = ([ConsoleLog ''handling''], Inl (Error ''boom''))"

definition failing_server :: server where
  "failing_server =
     trackHttpConnection 8 (trackHttpConnection 7 (trackListener 1
       (Server \<lparr>init_port = None, init_hostname = None, init_handler = failing_handler,
                init_onError = None\<rparr>)))"

definition get_root :: requestEvent where
  "get_root = \<lparr>request = ''GET /'', respondWith = (\<lambda>response. None)\<rparr>"

definition get_root_gone :: requestEvent where
  "get_root_gone = \<lparr>request = ''GET /'', respondWith = (\<lambda>response. Some BadResource)\<rparr>"

text \<open>
  An error handler that prints and raises, a server made with it, and a script of the
  request loop with two requests, each call of \<open>#respond\<close> running to its end before
  the next request arrives.
\<close>

definition worse_onError :: onError_fn where
  "worse_onError error = ([ConsoleLog ''onError''], Inl (Error ''worse''))"

definition worse_server :: server where
  "worse_server =
     trackHttpConnection 7 (trackListener 1
       (Server \<lparr>init_port = None, init_hostname = None, init_handler = failing_handler,
                init_onError = Some worse_onError\<rparr>))"

definition two_failing_requests :: "request_await list" where
  "two_failing_requests =
     [RequestAwait [] (NextRequest get_root),
      RequestAwait [Resume 0, Resume 0, Resume 0] (NextRequest get_root),
      RequestAwait [Resume 1, Resume 1, Resume 1] NoRequest]"

subsection \<open>A global scope\<close>

text \<open>
  A global scope that binds some of the constructors of the web platform and neither
  \<open>Application\<close> nor \<open>Session\<close>.
\<close>

definition deno_globals :: "string \<Rightarrow> deno_error option option" where
  "deno_globals name =
     (if name \<in> {''Response'', ''Request'', ''Headers'', ''URL'', ''AbortController''}
      then Some None else None)"

section \<open>Properties\<close>

subsection \<open>The fields after each step\<close>

lemma perform_fields [simp]:
  "closed (perform a s) = closed s"
  "listeners (perform a s) = listeners s"
  "httpConnections (perform a s) = httpConnections s"
  "handler (perform a s) = handler s"
  "onError (perform a s) = onError s"
  "port (perform a s) = port s"
  "host (perform a s) = host s"
  "effects (perform a s) = effects s @ [a]"
  by (simp_all add: perform_def)

lemma performs_fields [simp]:
  "closed (performs as s) = closed s"
  "listeners (performs as s) = listeners s"
  "httpConnections (performs as s) = httpConnections s"
  "handler (performs as s) = handler s"
  "onError (performs as s) = onError s"
  "effects (performs as s) = effects s @ as"
  by (simp_all add: performs_def)

lemma trackListener_fields [simp]:
  "closed (trackListener l s) = closed s"
  "listeners (trackListener l s) = Dlist.insert l (listeners s)"
  "httpConnections (trackListener l s) = httpConnections s"
  "handler (trackListener l s) = handler s"
  "onError (trackListener l s) = onError s"
  "effects (trackListener l s) = effects s"
  by (simp_all add: trackListener_def)

lemma untrackListener_fields [simp]:
  "closed (untrackListener l s) = closed s"
  "listeners (untrackListener l s) = Dlist.remove l (listeners s)"
  "httpConnections (untrackListener l s) = httpConnections s"
  "handler (untrackListener l s) = handler s"
  "onError (untrackListener l s) = onError s"
  "effects (untrackListener l s) = effects s"
  by (simp_all add: untrackListener_def)

lemma trackHttpConnection_fields [simp]:
  "closed (trackHttpConnection c s) = closed s"
  "listeners (trackHttpConnection c s) = listeners s"
  "httpConnections (trackHttpConnection c s) = Dlist.insert c (httpConnections s)"
  "handler (trackHttpConnection c s) = handler s"
  "onError (trackHttpConnection c s) = onError s"
  "effects (trackHttpConnection c s) = effects s"
  by (simp_all add: trackHttpConnection_def)

lemma closeHttpConn_fields [simp]:
  "closed (closeHttpConn c s) = closed s"
  "listeners (closeHttpConn c s) = listeners s"
  "httpConnections (closeHttpConn c s) = Dlist.remove c (httpConnections s)"
  "handler (closeHttpConn c s) = handler s"
  "onError (closeHttpConn c s) = onError s"
  "effects (closeHttpConn c s) = effects s @ [HttpConnClose c]"
  by (simp_all add: closeHttpConn_def untrackHttpConnection_def)

lemma serve_finally_fields [simp]:
  "closed (serve_finally l s) = closed s"
  "listeners (serve_finally l s) = Dlist.remove l (listeners s)"
  "httpConnections (serve_finally l s) = httpConnections s"
  "handler (serve_finally l s) = handler s"
  "onError (serve_finally l s) = onError s"
  "effects (serve_finally l s) = effects s @ [ListenerClose l]"
  by (simp_all add: serve_finally_def)

lemma fold_ListenerClose_fields [simp]:
  "closed (fold (\<lambda>l. perform (ListenerClose l)) ls s) = closed s"
  "listeners (fold (\<lambda>l. perform (ListenerClose l)) ls s) = listeners s"
  "httpConnections (fold (\<lambda>l. perform (ListenerClose l)) ls s) = httpConnections s"
  "handler (fold (\<lambda>l. perform (ListenerClose l)) ls s) = handler s"
  "onError (fold (\<lambda>l. perform (ListenerClose l)) ls s) = onError s"
  "effects (fold (\<lambda>l. perform (ListenerClose l)) ls s) = effects s @ map ListenerClose ls"
  by (induction ls arbitrary: s; simp)+

lemma fold_closeHttpConn_fields [simp]:
  "closed (fold closeHttpConn cs s) = closed s"
  "listeners (fold closeHttpConn cs s) = listeners s"
  "handler (fold closeHttpConn cs s) = handler s"
  "onError (fold closeHttpConn cs s) = onError s"
  "effects (fold closeHttpConn cs s) = effects s @ map HttpConnClose cs"
  by (induction cs arbitrary: s; simp)+

lemma close_Inl_iff: "(\<exists>e. close s = Inl e) \<longleftrightarrow> closed s"
  by (simp add: close_def Let_def)

lemma close_closed: "closed s \<Longrightarrow> close s = Inl (Http ERROR_SERVER_CLOSED)"
  by (simp add: close_def)

lemma close_open_fields:
  assumes "close s = Inr s'"
  shows "closed s'" "listeners s' = Dlist.empty" "httpConnections s' = Dlist.empty"
    "handler s' = handler s" "onError s' = onError s"
    "effects s' = effects s @ map ListenerClose (elements (listeners s))
                    @ map HttpConnClose (elements (httpConnections s))"
    "\<not> closed s"
  using assms by (auto simp: close_def Let_def split: if_splits)

lemma count_list_distinct:
  "distinct xs \<Longrightarrow> count_list xs x = (if x \<in> set xs then 1 else 0)"
  by (induction xs) auto

lemma count_list_map_inj:
  "inj f \<Longrightarrow> count_list (map f xs) (f x) = count_list xs x"
  by (induction xs) (auto dest: injD)

lemma untrackHttpConnection_fields [simp]:
  "closed (untrackHttpConnection c s) = closed s"
  "listeners (untrackHttpConnection c s) = listeners s"
  "httpConnections (untrackHttpConnection c s) = Dlist.remove c (httpConnections s)"
  "handler (untrackHttpConnection c s) = handler s"
  "onError (untrackHttpConnection c s) = onError s"
  "effects (untrackHttpConnection c s) = effects s"
  by (simp_all add: untrackHttpConnection_def)

lemma closed_close_step: "closed s \<Longrightarrow> closed (case close s of Inl _ \<Rightarrow> s | Inr s' \<Rightarrow> s')"
  by (simp add: close_def)

lemma closed_interfere1: "closed s \<Longrightarrow> closed (interfere1 x s)"
  by (cases x) (simp_all add: close_def)

lemma closed_interfere: "closed s \<Longrightarrow> closed (interfere during s)"
  unfolding interfere_def by (induction during arbitrary: s) (simp_all add: closed_interfere1)

lemma closed_respond_send:
  "closed s \<Longrightarrow> closed (snd (respond_send requestEvent httpConn response script s))"
  by (cases script) (simp_all add: Let_def closed_interfere split: option.splits)

lemma closed_respond:
  "closed s \<Longrightarrow> closed (snd (respond requestEvent httpConn connInfo script s))"
  by (cases script)
    (auto simp: Let_def closed_interfere closed_respond_send
      split: prod.splits sum.splits list.splits)

lemma serveHttp_Nil [simp]:
  "serveHttp httpConn connInfo [] s =
     (if closed s then (Returned, closeHttpConn httpConn s) else (Pending, s))"
  by (simp add: serveHttp_def)

lemma closed_serveHttp:
  "closed s \<Longrightarrow> closed (snd (serveHttp httpConn connInfo script s))"
  unfolding serveHttp_def
  by (cases "(httpConn, connInfo, script, []::respond_task option list, s)"
      rule: serveHttp_loop.cases) simp_all

lemma closed_accept_loop:
  "closed s \<Longrightarrow> accept_loop listener script b s = (Returned, s)"
  by (cases "(listener, script, b, s)" rule: accept_loop.cases) simp_all

lemma closed_serve: "closed s \<Longrightarrow> serve listener script s = (Threw (Http ERROR_SERVER_CLOSED), s)"
  by (simp add: serve_def)

lemma closed_run_call: "closed s \<Longrightarrow> closed (run_call c s)"
  by (cases c)
    (simp_all add: closed_serve accept_def closed_accept_loop closed_serveHttp closed_respond
      listenAndServe_def listenAndServeTls_def closed_close_step)

lemma closed_fold_run_call: "closed s \<Longrightarrow> closed (fold run_call calls s)"
  by (induction calls arbitrary: s) (simp_all add: closed_run_call)

lemma count_list_other_constructor:
  "count_list (map HttpConnClose cs) (ListenerClose l) = 0"
  "count_list (map ListenerClose ls) (HttpConnClose c) = 0"
  by (induction cs, simp_all) (induction ls, simp_all)

lemma example_server_fields:
  "\<not> closed example_server"
  "elements (listeners example_server) = [1, 2]"
  "elements (httpConnections example_server) = [7, 8]"
  "effects example_server = []"
  by (simp_all add: example_server_def Server_def elements_def)

subsection \<open>close\<close>

text \<open>
  C3. On an open server \<open>close\<close> returns, and then both tracking sets are empty; the
  effects it added hold one \<open>listener.close()\<close> for each listener that was tracked and
  none for any other, and one \<open>httpConn.close()\<close> for each connection that was tracked
  and none for any other.
\<close>

theorem close_empties_tracking_and_closes_each_once:
  assumes "\<not> closed s"
  shows "\<exists>s'. close s = Inr s' \<and> listeners s' = Dlist.empty \<and> httpConnections s' = Dlist.empty \<and>
     (\<exists>closes. effects s' = effects s @ closes \<and>
        (\<forall>l. count_list closes (ListenerClose l) =
               (if l \<in> set (elements (listeners s)) then 1 else 0)) \<and>
        (\<forall>c. count_list closes (HttpConnClose c) =
               (if c \<in> set (elements (httpConnections s)) then 1 else 0)))"
proof -
  from assms obtain s' where s': "close s = Inr s'"
    by (simp add: close_def Let_def)
  let ?ls = "elements (listeners s)" and ?cs = "elements (httpConnections s)"
  let ?closes = "map ListenerClose ?ls @ map HttpConnClose ?cs"
  have d: "distinct ?ls" "distinct ?cs"
    by (simp_all add: elements_def)
  have fx: "effects s' = effects s @ ?closes"
    using close_open_fields(6)[OF s'] by simp
  have l: "count_list ?closes (ListenerClose l) = (if l \<in> set ?ls then 1 else 0)" for l
  proof -
    have "count_list (map HttpConnClose ?cs) (ListenerClose l) = 0"
      by (rule count_list_other_constructor)
    moreover have "count_list (map ListenerClose ?ls) (ListenerClose l) = count_list ?ls l"
      by (rule count_list_map_inj) (simp add: inj_def)
    ultimately show ?thesis
      using d(1) by (simp add: count_list_distinct)
  qed
  have c: "count_list ?closes (HttpConnClose c) = (if c \<in> set ?cs then 1 else 0)" for c
  proof -
    have "count_list (map ListenerClose ?ls) (HttpConnClose c) = 0"
      by (rule count_list_other_constructor)
    moreover have "count_list (map HttpConnClose ?cs) (HttpConnClose c) = count_list ?cs c"
      by (rule count_list_map_inj) (simp add: inj_def)
    ultimately show ?thesis
      using d(2) by (simp add: count_list_distinct)
  qed
  show ?thesis
    using s' fx l c close_open_fields(2,3)[OF s'] by blast
qed

theorem close_empties_tracking_and_closes_each_once_witness:
  "\<not> closed example_server \<and>
   (\<exists>s'. close example_server = Inr s' \<and> listeners s' = Dlist.empty \<and>
      httpConnections s' = Dlist.empty \<and>
      effects s' = [ListenerClose 1, ListenerClose 2, HttpConnClose 7, HttpConnClose 8] \<and>
      count_list (effects s') (ListenerClose 2) = 1 \<and>
      count_list (effects s') (HttpConnClose 9) = 0)"
proof -
  have h: "\<not> closed example_server"
    by (rule example_server_fields)
  from close_empties_tracking_and_closes_each_once[OF h]
  obtain s' where s': "close example_server = Inr s'" "listeners s' = Dlist.empty"
      "httpConnections s' = Dlist.empty"
    by blast
  have "effects s' = [ListenerClose 1, ListenerClose 2, HttpConnClose 7, HttpConnClose 8]"
    using close_open_fields(6)[OF s'(1)] by (simp add: example_server_fields)
  with h s' show ?thesis
    by simp
qed

text \<open>
  C4. After a \<open>close\<close> that succeeded the server is closed, it stays closed through any
  sequence of calls of its methods, and \<open>close\<close> fails with \<open>Server closed\<close> after any
  such sequence (the empty one included).
\<close>

theorem close_twice_fails_and_closed_is_irreversible:
  assumes "\<not> closed s"
  shows "\<exists>s1. close s = Inr s1 \<and> closed s1 \<and>
           (\<forall>calls. closed (fold run_call calls s1) \<and>
              close (fold run_call calls s1) = Inl (Http ERROR_SERVER_CLOSED))"
proof -
  from assms obtain s1 where s1: "close s = Inr s1"
    by (simp add: close_def Let_def)
  then have c: "closed s1"
    by (rule close_open_fields(1))
  have "closed (fold run_call calls s1)" for calls
    using c by (rule closed_fold_run_call)
  with s1 c show ?thesis
    by (simp add: close_closed)
qed

theorem close_twice_fails_and_closed_is_irreversible_witness:
  "\<not> closed example_server \<and>
   (\<exists>s1. close example_server = Inr s1 \<and> closed s1 \<and>
      close s1 = Inl (Http ''Server closed'') \<and>
      close (snd (serve 3 [] s1)) = Inl (Http ''Server closed''))"
proof -
  have h: "\<not> closed example_server"
    by (rule example_server_fields)
  from close_twice_fails_and_closed_is_irreversible[OF h]
  obtain s1 where s1: "close example_server = Inr s1" "closed s1"
      "\<And>calls. close (fold run_call calls s1) = Inl (Http ERROR_SERVER_CLOSED)"
    by blast
  from s1(3)[of "[]"] s1(3)[of "[CallServe 3 []]"] s1(1,2) h show ?thesis
    by (simp add: ERROR_SERVER_CLOSED_def)
qed

subsection \<open>serve on a closed server\<close>

text \<open>
  C5. On a closed server \<open>serve\<close>, \<open>listenAndServe\<close> and \<open>listenAndServeTls\<close> raise
  \<open>Server closed\<close> and leave the state as it was: no listener is tracked and no effect
  is performed, so \<open>Deno.listen\<close> is not called.
\<close>

theorem serve_after_close_fails_at_once:
  assumes "closed s"
  shows "serve listener script s = (Threw (Http ERROR_SERVER_CLOSED), s) \<and>
         listenAndServe Deno_listen script s = (Threw (Http ERROR_SERVER_CLOSED), s) \<and>
         listenAndServeTls Deno_listenTls certFile keyFile script s =
           (Threw (Http ERROR_SERVER_CLOSED), s)"
  using assms by (simp add: serve_def listenAndServe_def listenAndServeTls_def)

theorem serve_after_close_fails_at_once_witness:
  "\<exists>s. close example_server = Inr s \<and> closed s \<and>
     serve 3 [] s = (Threw (Http ''Server closed''), s) \<and>
     listenAndServe (\<lambda>p h. Inr 3) [] s = (Threw (Http ''Server closed''), s) \<and>
     listenAndServeTls (\<lambda>p h c k. Inr 3) ''cert.pem'' ''key.pem'' [] s =
       (Threw (Http ''Server closed''), s) \<and>
     effects s = [ListenerClose 1, ListenerClose 2, HttpConnClose 7, HttpConnClose 8]"
proof -
  obtain s where s: "close example_server = Inr s"
    using example_server_fields(1) by (simp add: close_def Let_def)
  have c: "closed s"
    using s by (rule close_open_fields(1))
  have "effects s = [ListenerClose 1, ListenerClose 2, HttpConnClose 7, HttpConnClose 8]"
    using close_open_fields(6)[OF s] by (simp add: example_server_fields)
  with s c serve_after_close_fails_at_once[OF c, of 3 "[]" "\<lambda>p h. Inr 3" "\<lambda>p h c k. Inr 3"
      "''cert.pem''" "''key.pem''"]
  show ?thesis
    by (simp add: ERROR_SERVER_CLOSED_def)
qed

subsection \<open>The accept loop\<close>

lemma delays_append [simp]: "delays (xs @ ys) = delays xs @ delays ys"
  by (induction xs rule: delays.induct) simp_all

lemma backoff_backoff_after: "backoff (backoff_after k) = min (5 * 2 ^ k) 1000"
proof (cases k)
  case 0
  then show ?thesis
    by (simp add: backoff_def backoff_after_def INITIAL_ACCEPT_BACKOFF_DELAY_def
        MAX_ACCEPT_BACKOFF_DELAY_def)
next
  case (Suc j)
  have pos: "(0::nat) < 5 * 2 ^ j"
    by simp
  show ?thesis
  proof (cases "(5::nat) * 2 ^ j < 1000")
    case True
    with Suc pos show ?thesis
      by (simp add: backoff_def backoff_after_def MAX_ACCEPT_BACKOFF_DELAY_def min_def)
  next
    case False
    with Suc show ?thesis
      by (simp add: backoff_def backoff_after_def MAX_ACCEPT_BACKOFF_DELAY_def min_def)
  qed
qed

lemma backoff_after_Suc: "Some (backoff (backoff_after k)) = backoff_after (Suc k)"
  by (simp add: backoff_backoff_after) (simp add: backoff_after_def)

lemma delays_map_close [simp]:
  "delays (map ListenerClose ls) = []"
  "delays (map HttpConnClose cs) = []"
  by (induction ls, simp_all) (induction cs, simp_all)

lemma delays_close_step:
  "delays (effects (case close s of Inl _ \<Rightarrow> s | Inr s' \<Rightarrow> s')) = delays (effects s)"
proof (cases "close s")
  case (Inl e)
  then show ?thesis by simp
next
  case (Inr s')
  from close_open_fields(6)[OF this] show ?thesis
    by (simp add: Inr)
qed

lemma delays_interfere1: "delays (effects (interfere1 x s)) = delays (effects s)"
  by (cases x) (simp_all add: delays_close_step)

lemma delays_interfere [simp]: "delays (effects (interfere during s)) = delays (effects s)"
  unfolding interfere_def by (induction during arbitrary: s) (simp_all add: delays_interfere1)

lemma delays_serveHttp_start [simp]:
  "delays (effects (snd (serveHttp httpConn connInfo [] s))) = delays (effects s)"
  by simp

lemma open_interfere1: "\<not> closed s \<Longrightarrow> x \<noteq> OtherClose \<Longrightarrow> \<not> closed (interfere1 x s)"
  by (cases x) simp_all

lemma open_interfere: "\<not> closed s \<Longrightarrow> OtherClose \<notin> set during \<Longrightarrow> \<not> closed (interfere during s)"
proof (induction during arbitrary: s)
  case Nil
  then show ?case by (simp add: interfere_def)
next
  case (Cons a during)
  have a: "a \<noteq> OtherClose"
    using Cons.prems(2) by (cases a) simp_all
  have d: "OtherClose \<notin> set during"
    using Cons.prems(2) by simp
  have "\<not> closed (interfere1 a s)"
    using Cons.prems(1) a by (rule open_interfere1)
  from Cons.IH[OF this d] show ?case
    by (simp add: interfere_def)
qed

lemma accept_loop_delays_prefix:
  "\<exists>n. delays (effects (snd (accept_loop listener script (backoff_after k) s))) =
         delays (effects s) @ take n (spec_backoff_delays k (map settled script))"
proof (induction script arbitrary: k s)
  case Nil
  show ?case by simp
next
  case (Cons x script)
  obtain during r where x: "x = Await during r"
    by (cases x)
  show ?case
  proof (cases "closed s")
    case True
    then have "delays (effects (snd (accept_loop listener (x # script) (backoff_after k) s))) =
        delays (effects s) @ take 0 (spec_backoff_delays k (map settled (x # script)))"
      by (simp add: x)
    then show ?thesis ..
  next
    case False
    show ?thesis
    proof (cases r)
      case (Accepted c upgraded)
      let ?s1 = "interfere during s"
      let ?s2 = "case upgraded of None \<Rightarrow> ?s1
        | Some httpConn \<Rightarrow> snd (serveHttp httpConn (localAddr c, remoteAddr c) []
            (trackHttpConnection httpConn ?s1))"
      have d: "delays (effects ?s2) = delays (effects s)"
        by (cases upgraded) simp_all
      from Cons.IH[of 0 ?s2] obtain n where
        "delays (effects (snd (accept_loop listener script (backoff_after 0) ?s2))) =
           delays (effects ?s2) @ take n (spec_backoff_delays 0 (map settled script))" ..
      moreover have "accept_loop listener (x # script) (backoff_after k) s =
          accept_loop listener script (backoff_after 0) ?s2"
        using False by (cases upgraded) (simp_all add: x Accepted Let_def backoff_after_def)
      ultimately have "delays (effects (snd (accept_loop listener (x # script) (backoff_after k) s))) =
          delays (effects s) @ take n (spec_backoff_delays k (map settled (x # script)))"
        by (simp add: d x Accepted)
      then show ?thesis ..
    next
      case (AcceptFailed error during_delay)
      show ?thesis
      proof (cases "transient error")
        case True
        let ?d = "backoff (backoff_after k)"
        let ?s2 = "interfere during_delay (perform (Delay ?d) (interfere during s))"
        from Cons.IH[of "Suc k" ?s2] obtain n where
          "delays (effects (snd (accept_loop listener script (backoff_after (Suc k)) ?s2))) =
             delays (effects ?s2) @ take n (spec_backoff_delays (Suc k) (map settled script))" ..
        moreover have "accept_loop listener (x # script) (backoff_after k) s =
            accept_loop listener script (backoff_after (Suc k)) ?s2"
          using False True by (simp add: x AcceptFailed Let_def backoff_after_Suc)
        ultimately have "delays (effects (snd (accept_loop listener (x # script) (backoff_after k) s))) =
            delays (effects s) @ take (Suc n) (spec_backoff_delays k (map settled (x # script)))"
          using True by (simp add: x AcceptFailed backoff_backoff_after)
        then show ?thesis ..
      next
        case nt: False
        have "delays (effects (snd (accept_loop listener (x # script) (backoff_after k) s))) =
            delays (effects s) @ take 0 (spec_backoff_delays k (map settled (x # script)))"
          using False nt by (simp add: x AcceptFailed)
        then show ?thesis ..
      qed
    qed
  qed
qed

lemma accept_loop_delays_open:
  "\<not> closed s \<Longrightarrow> list_all quiet script \<Longrightarrow>
     delays (effects (snd (accept_loop listener script (backoff_after k) s))) =
       delays (effects s) @ spec_backoff_delays k (map settled script)"
proof (induction script arbitrary: k s)
  case Nil
  then show ?case by simp
next
  case (Cons x script)
  obtain during r where x: "x = Await during r"
    by (cases x)
  note op = \<open>\<not> closed s\<close>
  show ?case
  proof (cases r)
    case (Accepted c upgraded)
    let ?s1 = "interfere during s"
    let ?s2 = "case upgraded of None \<Rightarrow> ?s1
      | Some httpConn \<Rightarrow> snd (serveHttp httpConn (localAddr c, remoteAddr c) []
          (trackHttpConnection httpConn ?s1))"
    have q: "OtherClose \<notin> set during" "list_all quiet script"
      using Cons.prems(2) by (simp_all add: x Accepted)
    have o1: "\<not> closed ?s1"
      using op q(1) by (rule open_interfere)
    have d: "delays (effects ?s2) = delays (effects s)"
      by (cases upgraded) simp_all
    have o2: "\<not> closed ?s2"
      using o1 by (cases upgraded) simp_all
    have "accept_loop listener (x # script) (backoff_after k) s =
        accept_loop listener script (backoff_after 0) ?s2"
      using op by (cases upgraded) (simp_all add: x Accepted Let_def backoff_after_def)
    with Cons.IH[OF o2 q(2), of 0] show ?thesis
      by (simp add: d x Accepted)
  next
    case (AcceptFailed error during_delay)
    have q: "OtherClose \<notin> set during" "OtherClose \<notin> set during_delay" "list_all quiet script"
      using Cons.prems(2) by (simp_all add: x AcceptFailed)
    show ?thesis
    proof (cases "transient error")
      case True
      let ?d = "backoff (backoff_after k)"
      let ?s2 = "interfere during_delay (perform (Delay ?d) (interfere during s))"
      have "\<not> closed (perform (Delay ?d) (interfere during s))"
        using open_interfere[OF op q(1)] by simp
      then have o2: "\<not> closed ?s2"
        using q(2) by (rule open_interfere)
      have "accept_loop listener (x # script) (backoff_after k) s =
          accept_loop listener script (backoff_after (Suc k)) ?s2"
        using op True by (simp add: x AcceptFailed Let_def backoff_after_Suc)
      with Cons.IH[OF o2 q(3), of "Suc k"] True show ?thesis
        by (simp add: x AcceptFailed backoff_backoff_after)
    next
      case False
      with op show ?thesis
        by (simp add: x AcceptFailed)
    qed
  qed
qed

text \<open>
  C1. The delays the accept loop awaits are a prefix of the specified sequence 5, 10,
  20, ..., capped at 1000 and started again after each successful accept; they are the
  whole sequence when the server is open at the start and no other task closes it.
  After a successful accept the loop goes on as with \<open>acceptBackoffDelay\<close> unset,
  whatever its value was.
\<close>

theorem accept_backoff_delays:
  "(\<exists>n. delays (effects (snd (accept listener script s))) =
          delays (effects s) @ take n (spec_backoff_delays 0 (map settled script))) \<and>
   (\<not> closed s \<and> list_all quiet script \<longrightarrow>
      delays (effects (snd (accept listener script s))) =
        delays (effects s) @ spec_backoff_delays 0 (map settled script)) \<and>
   accept_loop listener (Await during (Accepted c upgraded) # rest) b s =
     accept_loop listener (Await during (Accepted c upgraded) # rest) None s"
proof -
  have b0: "backoff_after 0 = None"
    by (simp add: backoff_after_def)
  have "\<exists>n. delays (effects (snd (accept listener script s))) =
          delays (effects s) @ take n (spec_backoff_delays 0 (map settled script))"
    using accept_loop_delays_prefix[of listener script 0 s] by (simp add: accept_def b0)
  moreover have "delays (effects (snd (accept listener script s))) =
        delays (effects s) @ spec_backoff_delays 0 (map settled script)"
    if "\<not> closed s" "list_all quiet script"
    using accept_loop_delays_open[OF that, of listener 0] by (simp add: accept_def b0)
  moreover have "accept_loop listener (Await during (Accepted c upgraded) # rest) b s =
     accept_loop listener (Await during (Accepted c upgraded) # rest) None s"
    by simp
  ultimately show ?thesis
    by blast
qed

theorem accept_backoff_delays_witness:
  "\<not> closed example_server \<and> list_all quiet ten_resets_then_accept \<and>
   delays (effects (snd (accept 1 ten_resets_then_accept example_server))) =
     [5, 10, 20, 40, 80, 160, 320, 640, 1000, 1000, 5, 10]"
proof -
  have h: "\<not> closed example_server"
    by (rule example_server_fields)
  have r: "replicate 10 x = [x, x, x, x, x, x, x, x, x, x]" for x :: "accept_result await"
    by (simp add: numeral_eq_Suc)
  have q: "list_all quiet ten_resets_then_accept"
    by (simp add: ten_resets_then_accept_def r)
  have "spec_backoff_delays 0 (map settled ten_resets_then_accept) =
      [5, 10, 20, 40, 80, 160, 320, 640, 1000, 1000, 5, 10]"
    by (simp add: ten_resets_then_accept_def r)
  with h q accept_backoff_delays[of 1 ten_resets_then_accept example_server]
  show ?thesis
    by (simp add: example_server_fields)
qed

lemma accept_loop_Threw_not_transient:
  "fst (accept_loop listener script b s) = Threw e \<Longrightarrow> \<not> transient e"
proof (induction script arbitrary: b s)
  case Nil
  then show ?case by (simp split: if_splits)
next
  case (Cons x script)
  obtain during r where x: "x = Await during r"
    by (cases x)
  from Cons.prems have op: "\<not> closed s"
    by (auto simp: x)
  show ?case
  proof (cases r)
    case (Accepted c upgraded)
    with Cons.prems op show ?thesis
      by (cases upgraded) (auto simp: x Let_def dest: Cons.IH)
  next
    case (AcceptFailed error during_delay)
    with Cons.prems op show ?thesis
      by (cases "transient error") (auto simp: x Let_def dest: Cons.IH)
  qed
qed

lemma accept_loop_first_fatal:
  "\<not> closed s \<Longrightarrow> list_all quiet script \<Longrightarrow> first_fatal (map settled script) = Some e \<Longrightarrow>
     fst (accept_loop listener script b s) = Threw e"
proof (induction script arbitrary: b s)
  case Nil
  then show ?case by simp
next
  case (Cons x script)
  obtain during r where x: "x = Await during r"
    by (cases x)
  note op = \<open>\<not> closed s\<close>
  show ?case
  proof (cases r)
    case (Accepted c upgraded)
    let ?s1 = "interfere during s"
    have q: "OtherClose \<notin> set during" "list_all quiet script"
      using Cons.prems(2) by (simp_all add: x Accepted)
    have ff: "first_fatal (map settled script) = Some e"
      using Cons.prems(3) by (simp add: x Accepted)
    have o1: "\<not> closed ?s1"
      using op q(1) by (rule open_interfere)
    show ?thesis
    proof (cases upgraded)
      case None
      with op Cons.IH[OF o1 q(2) ff] show ?thesis
        by (simp add: x Accepted)
    next
      case (Some httpConn)
      let ?s3 = "snd (serveHttp httpConn (localAddr c, remoteAddr c) []
          (trackHttpConnection httpConn ?s1))"
      have "\<not> closed ?s3"
        using o1 by simp
      from Cons.IH[OF this q(2) ff] op Some show ?thesis
        by (simp add: x Accepted Let_def)
    qed
  next
    case (AcceptFailed error during_delay)
    have q: "OtherClose \<notin> set during" "OtherClose \<notin> set during_delay" "list_all quiet script"
      using Cons.prems(2) by (simp_all add: x AcceptFailed)
    show ?thesis
    proof (cases "transient error")
      case True
      let ?s2 = "interfere during_delay (perform (Delay (backoff b)) (interfere during s))"
      have "\<not> closed (perform (Delay (backoff b)) (interfere during s))"
        using open_interfere[OF op q(1)] by simp
      then have o2: "\<not> closed ?s2"
        using q(2) by (rule open_interfere)
      have ff: "first_fatal (map settled script) = Some e"
        using Cons.prems(3) True by (simp add: x AcceptFailed)
      from Cons.IH[OF o2 q(3) ff] op True show ?thesis
        by (simp add: x AcceptFailed Let_def)
    next
      case False
      with op Cons.prems(3) show ?thesis
        by (simp add: x AcceptFailed)
    qed
  qed
qed

lemma fst_serve_try: "fst (serve_try listener script s) = fst (accept listener script s)"
  by (simp add: serve_try_def split: prod.splits outcome.splits)

lemma fst_serve_open:
  "\<not> closed s \<Longrightarrow> fst (serve listener script s) =
     fst (accept_loop listener script None (trackListener listener s))"
  by (simp add: serve_def fst_serve_try accept_def)

text \<open>
  C8. An accept error outside the allow-list ends the loop at once: the rest of the
  script is not read and no delay is awaited; when the server stays open, the first
  such error of a script is what \<open>accept\<close> and \<open>serve\<close> raise. An error of the
  allow-list is followed by the delay and the next iteration of the loop, and is never
  what \<open>accept\<close> or \<open>serve\<close> raises.
\<close>

theorem fatal_accept_error_propagates_transient_never:
  "(\<not> closed s \<and> \<not> transient error \<longrightarrow>
      accept_loop listener (Await during (AcceptFailed error during_delay) # rest) b s =
        (Threw error, interfere during s)) \<and>
   (\<not> closed s \<and> list_all quiet script \<and> first_fatal (map settled script) = Some e \<longrightarrow>
      fst (accept listener script s) = Threw e \<and> fst (serve listener script s) = Threw e) \<and>
   (\<not> closed s \<and> transient error \<longrightarrow>
      accept_loop listener (Await during (AcceptFailed error during_delay) # rest) b s =
        accept_loop listener rest (Some (backoff b))
          (interfere during_delay (perform (Delay (backoff b)) (interfere during s)))) \<and>
   (\<forall>e'. transient e' \<longrightarrow>
      fst (accept listener script s) \<noteq> Threw e' \<and> fst (serve listener script s) \<noteq> Threw e')"
proof -
  have a: "fst (accept listener script s) = Threw e \<and> fst (serve listener script s) = Threw e"
    if "\<not> closed s" "list_all quiet script" "first_fatal (map settled script) = Some e"
  proof -
    have "\<not> closed (trackListener listener s)"
      using that(1) by simp
    from accept_loop_first_fatal[OF this that(2,3)] accept_loop_first_fatal[OF that]
    show ?thesis
      using that(1) by (simp add: fst_serve_open accept_def)
  qed
  have n: "fst (accept listener script s) \<noteq> Threw e' \<and> fst (serve listener script s) \<noteq> Threw e'"
    if "transient e'" for e'
  proof -
    have "fst (accept listener script s) \<noteq> Threw e'"
      using that accept_loop_Threw_not_transient by (auto simp: accept_def)
    moreover have "fst (serve listener script s) \<noteq> Threw e'"
    proof (cases "closed s")
      case True
      with that show ?thesis
        by (auto simp: serve_def)
    next
      case False
      with that accept_loop_Threw_not_transient show ?thesis
        by (auto simp: fst_serve_open)
    qed
    ultimately show ?thesis ..
  qed
  show ?thesis
    using a n by (simp add: Let_def)
qed

theorem fatal_accept_error_propagates_transient_never_witness:
  "\<not> closed example_server \<and> \<not> transient (Error ''Too many open files (os error 24)'') \<and>
   transient ConnectionReset \<and> list_all quiet reset_then_fatal \<and>
   first_fatal (map settled reset_then_fatal) = Some (Error ''Too many open files (os error 24)'') \<and>
   accept_loop 3 (tl reset_then_fatal) (Some 5) example_server =
     (Threw (Error ''Too many open files (os error 24)''), example_server) \<and>
   fst (serve 3 reset_then_fatal example_server) = Threw (Error ''Too many open files (os error 24)'') \<and>
   accept_loop 3 reset_then_fatal None example_server =
     accept_loop 3 (tl reset_then_fatal) (Some 5) (perform (Delay 5) example_server) \<and>
   fst (serve 3 reset_then_fatal example_server) \<noteq> Threw ConnectionReset"
proof -
  let ?fatal = "Error ''Too many open files (os error 24)''"
  have h: "\<not> closed example_server"
    by (rule example_server_fields)
  have q: "list_all quiet reset_then_fatal"
    "first_fatal (map settled reset_then_fatal) = Some ?fatal"
    by (simp_all add: reset_then_fatal_def)
  have b: "backoff None = 5"
    by (simp add: backoff_def INITIAL_ACCEPT_BACKOFF_DELAY_def MAX_ACCEPT_BACKOFF_DELAY_def)
  from h q b
    fatal_accept_error_propagates_transient_never[where s = example_server and error = ?fatal
      and listener = 3 and during = "[]" and during_delay = "[]"
      and rest = "[Await [] (AcceptFailed ConnectionReset [])]" and b = "Some 5"
      and script = reset_then_fatal and e = ?fatal]
    fatal_accept_error_propagates_transient_never[where s = example_server
      and error = ConnectionReset and listener = 3 and during = "[]" and during_delay = "[]"
      and rest = "tl reset_then_fatal" and b = None and script = reset_then_fatal and e = ?fatal]
  show ?thesis
    by (simp add: reset_then_fatal_def interfere_def)
qed

subsection \<open>serve\<close>

lemma accept_loop_Returned_closed:
  "fst (accept_loop listener script b s) = Returned \<Longrightarrow> closed (snd (accept_loop listener script b s))"
proof (induction script arbitrary: b s)
  case Nil
  then show ?case by (simp split: if_splits)
next
  case (Cons x script)
  obtain during r where x: "x = Await during r"
    by (cases x)
  show ?case
  proof (cases "closed s")
    case True
    then show ?thesis by (simp add: x)
  next
    case False
    show ?thesis
    proof (cases r)
      case (Accepted c upgraded)
      with Cons.prems False show ?thesis
        by (cases upgraded) (auto simp: x Let_def intro: Cons.IH)
    next
      case (AcceptFailed error during_delay)
      with Cons.prems False show ?thesis
        by (cases "transient error") (auto simp: x Let_def intro: Cons.IH)
    qed
  qed
qed

lemma serve_open_exit:
  assumes "\<not> closed s" "fst (serve listener script s) \<noteq> Pending"
  shows "snd (serve listener script s) =
           serve_finally listener (snd (accept listener script (trackListener listener s)))"
  using assms
  by (simp add: serve_def serve_try_def split: prod.splits outcome.splits)

text \<open>
  C9. On an open server \<open>serve\<close> tracks the listener before its first await. Whenever
  it returns or raises, the listener is no longer tracked and \<open>listener.close()\<close> is
  the last effect; it returns only when the server is closed.
\<close>

theorem serve_tracks_then_untracks_and_closes:
  assumes "\<not> closed s"
  shows "serve listener [] s = (Pending, trackListener listener s) \<and>
     listener \<in> set (elements (listeners (trackListener listener s))) \<and>
     (fst (serve listener script s) \<noteq> Pending \<longrightarrow>
        listener \<notin> set (elements (listeners (snd (serve listener script s)))) \<and>
        (\<exists>fx. effects (snd (serve listener script s)) = fx @ [ListenerClose listener])) \<and>
     (fst (serve listener script s) = Returned \<longrightarrow> closed (snd (serve listener script s)))"
proof -
  have p: "serve listener [] s = (Pending, trackListener listener s)"
    using assms by (simp add: serve_def serve_try_def accept_def)
  have t: "listener \<in> set (elements (listeners (trackListener listener s)))"
    by (simp add: elements_def)
  have e: "listener \<notin> set (elements (listeners (snd (serve listener script s)))) \<and>
        (\<exists>fx. effects (snd (serve listener script s)) = fx @ [ListenerClose listener])"
    if "fst (serve listener script s) \<noteq> Pending"
    using serve_open_exit[OF assms that] by (simp add: elements_def)
  have r: "closed (snd (serve listener script s))"
    if ret: "fst (serve listener script s) = Returned"
  proof -
    have "fst (accept_loop listener script None (trackListener listener s)) = Returned"
      using ret assms by (simp add: fst_serve_open)
    then have "closed (snd (accept_loop listener script None (trackListener listener s)))"
      by (rule accept_loop_Returned_closed)
    moreover have "fst (serve listener script s) \<noteq> Pending"
      using ret by simp
    ultimately show ?thesis
      using serve_open_exit[OF assms] by (simp add: accept_def)
  qed
  from p t e r show ?thesis
    by blast
qed

theorem serve_tracks_then_untracks_and_closes_witness:
  "\<not> closed example_server \<and>
   serve 3 [] example_server = (Pending, trackListener 3 example_server) \<and>
   elements (listeners (trackListener 3 example_server)) = [1, 2, 3] \<and>
   fst (serve 3 reset_then_fatal example_server) = Threw (Error ''Too many open files (os error 24)'') \<and>
   3 \<notin> set (elements (listeners (snd (serve 3 reset_then_fatal example_server)))) \<and>
   (\<exists>fx. effects (snd (serve 3 reset_then_fatal example_server)) = fx @ [ListenerClose 3]) \<and>
   fst (serve 3 reset_while_closing example_server) = Returned \<and>
   closed (snd (serve 3 reset_while_closing example_server)) \<and>
   3 \<notin> set (elements (listeners (snd (serve 3 reset_while_closing example_server)))) \<and>
   (\<exists>fx. effects (snd (serve 3 reset_while_closing example_server)) = fx @ [ListenerClose 3])"
proof -
  have h: "\<not> closed example_server"
    by (rule example_server_fields)
  have l: "elements (listeners (trackListener 3 example_server)) = [1, 2, 3]"
    by (simp add: example_server_def Server_def elements_def)
  have f: "fst (serve 3 reset_then_fatal example_server) = Threw (Error ''Too many open files (os error 24)'')"
    using h by (simp add: fst_serve_open reset_then_fatal_def interfere_def)
  have c: "fst (serve 3 reset_while_closing example_server) = Returned"
    using h by (simp add: fst_serve_open reset_while_closing_def interfere_def close_def Let_def)
  from h l f c
    serve_tracks_then_untracks_and_closes[OF h, of 3 reset_then_fatal]
    serve_tracks_then_untracks_and_closes[OF h, of 3 reset_while_closing]
  show ?thesis
    by simp
qed

subsection \<open>respond and serveHttp\<close>

lemma close_step_fields [simp]:
  "handler (case close s of Inl _ \<Rightarrow> s | Inr s' \<Rightarrow> s') = handler s"
  "onError (case close s of Inl _ \<Rightarrow> s | Inr s' \<Rightarrow> s') = onError s"
  by (cases "close s"; simp add: close_open_fields)+

lemma interfere1_code_fields [simp]:
  "handler (interfere1 x s) = handler s"
  "onError (interfere1 x s) = onError s"
  by (cases x; simp)+

lemma interfere_code_fields [simp]:
  "handler (interfere during s) = handler s"
  "onError (interfere during s) = onError s"
  unfolding interfere_def by (induction during arbitrary: s; simp)+

lemma interfere_Nil [simp]: "interfere [] s = s"
  by (simp add: interfere_def)

lemma respond_raising:
  assumes "handler s (request requestEvent) connInfo = (fx, Inl error)"
    and "onError s error = (fx', Inr response)"
  shows "respond requestEvent httpConn connInfo (d1 # d2 # script) s =
     respond_send requestEvent httpConn response script
       (interfere d2 (performs fx' (interfere d1 (performs fx s))))"
  using assms by (simp add: Let_def)

lemma respond_returning:
  assumes "handler s (request requestEvent) connInfo = (fx, Inr response)"
  shows "respond requestEvent httpConn connInfo (d1 # script) s =
     respond_send requestEvent httpConn response script (interfere d1 (performs fx s))"
  using assms by (simp add: Let_def)

lemma failing_server_fields:
  "\<not> closed failing_server"
  "handler failing_server = failing_handler"
  "onError failing_server = defaultOnError"
  "elements (listeners failing_server) = [1]"
  "elements (httpConnections failing_server) = [7, 8]"
  "effects failing_server = []"
  by (simp_all add: failing_server_def Server_def elements_def)

lemma respond_by_steps:
  "respond requestEvent httpConn connInfo script s =
     respond_run (fst (respond_start requestEvent httpConn connInfo s)) script
       (snd (respond_start requestEvent httpConn connInfo s))"
proof (cases script)
  case Nil
  then show ?thesis by (simp add: respond_start_def)
next
  case (Cons d1 script1)
  obtain fx r where h: "handler s (request requestEvent) connInfo = (fx, r)"
    by (cases "handler s (request requestEvent) connInfo")
  show ?thesis
  proof (cases r)
    case (Inr response)
    show ?thesis
      by (cases script1)
        (simp_all add: Cons h Inr respond_start_def Let_def split: option.splits)
  next
    case (Inl error)
    obtain fx' r' where o: "onError s error = (fx', r')"
      by (cases "onError s error")
    show ?thesis
    proof (cases script1)
      case Nil
      then show ?thesis
        by (simp add: Cons h Inl o respond_start_def Let_def)
    next
      case (Cons d2 script2)
      show ?thesis
      proof (cases r')
        case (Inl error')
        then show ?thesis
          by (simp add: \<open>script = d1 # script1\<close> Cons h \<open>r = Inl error\<close> o respond_start_def Let_def)
      next
        case (Inr response)
        then show ?thesis
          by (cases script2)
            (simp_all add: \<open>script = d1 # script1\<close> Cons h \<open>r = Inl error\<close> o respond_start_def
              Let_def split: option.splits)
      qed
    qed
  qed
qed

lemma closed_respond_start [simp]:
  "closed (snd (respond_start requestEvent httpConn connInfo s)) = closed s"
  "handler (snd (respond_start requestEvent httpConn connInfo s)) = handler s"
  "onError (snd (respond_start requestEvent httpConn connInfo s)) = onError s"
  by (simp_all add: respond_start_def)

lemma respond_resume_fields [simp]:
  "closed (snd (respond_resume task s)) = closed s"
  "listeners (snd (respond_resume task s)) = listeners s"
  "handler (snd (respond_resume task s)) = handler s"
  "onError (snd (respond_resume task s)) = onError s"
  by (cases "(task, s)" rule: respond_resume.cases; simp split: option.splits)+

lemma closed_interfere1_iff: "closed (interfere1 x s) = (closed s \<or> x = OtherClose)"
  by (cases x) (simp_all add: close_def Let_def)

lemma closed_interfere_iff: "closed (interfere during s) = (closed s \<or> OtherClose \<in> set during)"
  unfolding interfere_def
  by (induction during arbitrary: s) (simp_all add: closed_interfere1_iff disj_ac eq_commute)

lemma meanwhile_step_fields:
  "closed (snd (meanwhile_step m (calls, s))) = (closed s \<or> m = Other OtherClose)"
  "handler (snd (meanwhile_step m (calls, s))) = handler s"
  "onError (snd (meanwhile_step m (calls, s))) = onError s"
proof -
  have r: "closed (snd (case respond_resume task s of
        (Inl out, s') \<Rightarrow> (calls[i := None], s')
      | (Inr task', s') \<Rightarrow> (calls[i := Some task'], s'))) = closed s"
    "handler (snd (case respond_resume task s of
        (Inl out, s') \<Rightarrow> (calls[i := None], s')
      | (Inr task', s') \<Rightarrow> (calls[i := Some task'], s'))) = handler s"
    "onError (snd (case respond_resume task s of
        (Inl out, s') \<Rightarrow> (calls[i := None], s')
      | (Inr task', s') \<Rightarrow> (calls[i := Some task'], s'))) = onError s" for task i
    using respond_resume_fields[of task s]
    by (cases "respond_resume task s"; cases "fst (respond_resume task s)"; simp)+
  show "closed (snd (meanwhile_step m (calls, s))) = (closed s \<or> m = Other OtherClose)"
    by (cases m) (simp_all add: closed_interfere1_iff r split: option.splits)
  show "handler (snd (meanwhile_step m (calls, s))) = handler s"
    by (cases m) (simp_all add: r split: option.splits)
  show "onError (snd (meanwhile_step m (calls, s))) = onError s"
    by (cases m) (simp_all add: r split: option.splits)
qed

lemma fold_meanwhile_step_all:
  "closed (snd (fold meanwhile_step during (calls, s))) = (closed s \<or> Other OtherClose \<in> set during) \<and>
   handler (snd (fold meanwhile_step during (calls, s))) = handler s \<and>
   onError (snd (fold meanwhile_step during (calls, s))) = onError s"
proof (induction during arbitrary: calls s)
  case Nil
  show ?case by simp
next
  case (Cons m during)
  obtain calls' s' where st: "meanwhile_step m (calls, s) = (calls', s')"
    by (cases "meanwhile_step m (calls, s)")
  have e: "fold meanwhile_step (m # during) (calls, s) = fold meanwhile_step during (calls', s')"
    by (simp del: meanwhile_step.simps add: st)
  have f: "closed s' = (closed s \<or> m = Other OtherClose)" "handler s' = handler s"
    "onError s' = onError s"
    using meanwhile_step_fields[of m calls s] by (simp_all only: st snd_conv)
  have "(Other OtherClose \<in> set (m # during)) = (m = Other OtherClose \<or> Other OtherClose \<in> set during)"
    by auto
  with Cons.IH[of calls' s'] f show ?case
    unfolding e by simp
qed

lemmas fold_meanwhile_step_fields =
  fold_meanwhile_step_all[THEN conjunct1]
  fold_meanwhile_step_all[THEN conjunct2, THEN conjunct1]
  fold_meanwhile_step_all[THEN conjunct2, THEN conjunct2]

lemma closed_serveHttp_start [simp]:
  "closed (snd (serveHttp httpConn connInfo [] s)) = closed s"
  by simp

text \<open>The flow of both loops reads the closed flag and nothing else of the state.\<close>

lemma accept_loop_outcome_closed_only:
  "closed s = closed t \<Longrightarrow>
     fst (accept_loop listener script b s) = fst (accept_loop listener script b t)"
proof (induction script arbitrary: b s t)
  case Nil
  then show ?case by simp
next
  case (Cons x script)
  obtain during r where x: "x = Await during r"
    by (cases x)
  have i: "closed (interfere d s') = closed (interfere d t')" if "closed s' = closed t'" for d s' t'
    using that by (simp add: closed_interfere_iff)
  show ?case
  proof (cases r)
    case (Accepted c upgraded)
    show ?thesis
    proof (cases upgraded)
      case None
      with Cons.prems Cons.IH[OF i[OF Cons.prems]] show ?thesis
        by (simp add: x Accepted)
    next
      case (Some httpConn)
      let ?ci = "(localAddr c, remoteAddr c)"
      have "closed (snd (serveHttp httpConn ?ci [] (trackHttpConnection httpConn (interfere during s)))) =
          closed (snd (serveHttp httpConn ?ci [] (trackHttpConnection httpConn (interfere during t))))"
        unfolding closed_serveHttp_start using i[OF Cons.prems] by simp
      from Cons.IH[OF this] Cons.prems show ?thesis
        by (simp add: x Accepted Some Let_def)
    qed
  next
    case (AcceptFailed error during_delay)
    have "closed (interfere during_delay (perform (Delay (backoff b)) (interfere during s))) =
        closed (interfere during_delay (perform (Delay (backoff b)) (interfere during t)))"
      using i[OF Cons.prems] by (simp add: closed_interfere_iff)
    from Cons.IH[OF this] Cons.prems i[OF Cons.prems] show ?thesis
      by (simp add: x AcceptFailed Let_def)
  qed
qed

lemma serveHttp_loop_never_throws:
  "fst (serveHttp_loop httpConn connInfo script calls s) \<noteq> Threw e"
proof (induction script arbitrary: calls s)
  case Nil
  show ?case by simp
next
  case (Cons x script)
  obtain during r where x: "x = RequestAwait during r"
    by (cases x)
  obtain calls1 s1 where f: "fold meanwhile_step during (calls, s) = (calls1, s1)"
    by (cases "fold meanwhile_step during (calls, s)")
  show ?case
    by (cases r) (simp_all add: x f Let_def Cons.IH split: prod.splits)
qed

lemma serveHttp_loop_outcome_closed_only:
  "closed s = closed t \<Longrightarrow>
     fst (serveHttp_loop httpConn connInfo script calls s) =
       fst (serveHttp_loop httpConn connInfo script calls' t)"
proof (induction script arbitrary: calls calls' s t)
  case Nil
  then show ?case by simp
next
  case (Cons x script)
  obtain during r where x: "x = RequestAwait during r"
    by (cases x)
  obtain calls1 s1 where f: "fold meanwhile_step during (calls, s) = (calls1, s1)"
    by (cases "fold meanwhile_step during (calls, s)")
  obtain calls1' t1 where g: "fold meanwhile_step during (calls', t) = (calls1', t1)"
    by (cases "fold meanwhile_step during (calls', t)")
  have c1: "closed s1 = closed t1"
    using fold_meanwhile_step_fields(1)[of during calls s]
      fold_meanwhile_step_fields(1)[of during calls' t] Cons.prems
    by (simp add: f g)
  show ?case
  proof (cases r)
    case (NextRequest requestEvent)
    have "closed (snd (respond_start requestEvent httpConn connInfo s1)) =
        closed (snd (respond_start requestEvent httpConn connInfo t1))"
      using c1 by simp
    from Cons.IH[OF this] Cons.prems show ?thesis
      by (simp add: x f g NextRequest case_prod_beta)
  next
    case NoRequest
    with Cons.prems show ?thesis by (simp add: x f g)
  next
    case (NextRequestFailed e)
    with Cons.prems show ?thesis by (simp add: x f g)
  qed
qed

text \<open>No method changes the handlers the constructor stored.\<close>

lemma serveHttp_loop_code:
  "handler (snd (serveHttp_loop httpConn connInfo script calls s)) = handler s \<and>
   onError (snd (serveHttp_loop httpConn connInfo script calls s)) = onError s"
proof (induction script arbitrary: calls s)
  case Nil
  show ?case by simp
next
  case (Cons x script)
  obtain during r where x: "x = RequestAwait during r"
    by (cases x)
  obtain calls1 s1 where f: "fold meanwhile_step during (calls, s) = (calls1, s1)"
    by (cases "fold meanwhile_step during (calls, s)")
  have c: "handler s1 = handler s" "onError s1 = onError s"
    using fold_meanwhile_step_fields(2,3)[of during calls s] by (simp_all add: f)
  show ?case
  proof (cases r)
    case (NextRequest requestEvent)
    from Cons.IH[of "calls1 @ [Some (fst (respond_start requestEvent httpConn connInfo s1))]"
        "snd (respond_start requestEvent httpConn connInfo s1)"] c
    show ?thesis
      by (simp add: x f NextRequest case_prod_beta)
  next
    case NoRequest
    with c show ?thesis by (simp add: x f)
  next
    case (NextRequestFailed e)
    with c show ?thesis by (simp add: x f)
  qed
qed

lemma respond_send_code:
  "handler (snd (respond_send requestEvent httpConn response script s)) = handler s \<and>
   onError (snd (respond_send requestEvent httpConn response script s)) = onError s"
  by (cases script) (simp_all add: Let_def split: option.splits)

lemma respond_code:
  "handler (snd (respond requestEvent httpConn connInfo script s)) = handler s \<and>
   onError (snd (respond requestEvent httpConn connInfo script s)) = onError s"
  by (cases script)
    (auto simp: Let_def respond_send_code split: prod.splits sum.splits list.splits)

lemma accept_loop_code:
  "handler (snd (accept_loop listener script b s)) = handler s \<and>
   onError (snd (accept_loop listener script b s)) = onError s"
proof (induction script arbitrary: b s)
  case Nil
  show ?case by simp
next
  case (Cons x script)
  obtain during r where x: "x = Await during r"
    by (cases x)
  show ?case
  proof (cases r)
    case (Accepted c upgraded)
    show ?thesis
    proof (cases upgraded)
      case None
      with Cons.IH[of None "interfere during s"] show ?thesis
        by (simp add: x Accepted)
    next
      case (Some httpConn)
      let ?s3 = "snd (serveHttp httpConn (localAddr c, remoteAddr c) []
          (trackHttpConnection httpConn (interfere during s)))"
      have "handler ?s3 = handler s" "onError ?s3 = onError s"
        by simp_all
      with Cons.IH[of None ?s3] show ?thesis
        by (simp add: x Accepted Some Let_def del: serveHttp_Nil)
    qed
  next
    case (AcceptFailed error during_delay)
    from Cons.IH[of "Some (backoff b)"
        "interfere during_delay (perform (Delay (backoff b)) (interfere during s))"]
    show ?thesis
      by (simp add: x AcceptFailed Let_def)
  qed
qed

lemma serve_code:
  "handler (snd (serve listener script s)) = handler s \<and>
   onError (snd (serve listener script s)) = onError s"
proof (cases "closed s")
  case True
  then show ?thesis by (simp add: serve_def)
next
  case False
  obtain out s1 where a: "accept_loop listener script None (trackListener listener s) = (out, s1)"
    by (cases "accept_loop listener script None (trackListener listener s)")
  have "handler s1 = handler s" "onError s1 = onError s"
    using accept_loop_code[of listener script None "trackListener listener s"] by (simp_all add: a)
  then show ?thesis
    using False by (cases out) (simp_all add: serve_def serve_try_def accept_def a)
qed

lemma run_call_code:
  "handler (run_call c s) = handler s \<and> onError (run_call c s) = onError s"
proof (cases c)
  case (CallListenAndServe Deno_listen script)
  then show ?thesis
    using serve_code by (simp add: listenAndServe_def Let_def split: sum.splits)
next
  case (CallListenAndServeTls Deno_listenTls certFile keyFile script)
  then show ?thesis
    using serve_code by (simp add: listenAndServeTls_def Let_def split: sum.splits)
qed (simp_all add: serve_code accept_def accept_loop_code serveHttp_def serveHttp_loop_code
    respond_code)

lemma fold_run_call_code:
  "handler (fold run_call calls s) = handler s \<and> onError (fold run_call calls s) = onError s"
  by (induction calls arbitrary: s) (simp_all add: run_call_code)

lemma worse_server_fields:
  "\<not> closed worse_server"
  "handler worse_server = failing_handler"
  "onError worse_server = worse_onError"
  "effects worse_server = []"
  by (simp_all add: worse_server_def Server_def)

lemma respond_raising_twice:
  assumes "handler s (request requestEvent) connInfo = (fx, Inl error)"
    and "onError s error = (fx', Inl error')"
  shows "respond requestEvent httpConn connInfo (d1 # d2 # script) s =
     (Threw error', interfere d2 (performs fx' (interfere d1 (performs fx s))))"
  using assms by (simp add: Let_def)

lemma respond_raising_quiet:
  assumes "handler s (request requestEvent) connInfo = (fx, Inl error)"
  shows "respond requestEvent httpConn connInfo [[], [], []] s =
     (case snd (onError s error) of
        Inl error' \<Rightarrow> (Threw error', performs (fst (onError s error)) (performs fx s))
      | Inr response \<Rightarrow>
          (Returned,
           case respondWith requestEvent response of
             None \<Rightarrow> perform (RespondWith (request requestEvent) response)
                      (performs (fst (onError s error)) (performs fx s))
           | Some _ \<Rightarrow> closeHttpConn httpConn
                        (perform (RespondWith (request requestEvent) response)
                          (performs (fst (onError s error)) (performs fx s)))))"
  using assms
  by (cases "onError s error")
    (simp add: Let_def split: sum.splits option.splits)

lemma serveHttp_after_raising_request:
  assumes "handler s (request requestEvent) connInfo = (fx, Inl error)" and "\<not> closed s"
  shows "serveHttp httpConn connInfo
       (RequestAwait [] (NextRequest requestEvent) #
        RequestAwait (Resume 0 # Resume 0 # Resume 0 # during) r # rest) s =
     serveHttp_loop httpConn connInfo (RequestAwait during r # rest) [None]
       (snd (respond requestEvent httpConn connInfo [[], [], []] s))"
proof -
  obtain fx' r' where o: "onError s error = (fx', r')"
    by (cases "onError s error")
  show ?thesis
  proof (cases r')
    case (Inl error')
    show ?thesis
      unfolding respond_raising_quiet[OF assms(1)]
      using assms by (simp add: serveHttp_def respond_start_def o Inl)
  next
    case (Inr response)
    show ?thesis
      unfolding respond_raising_quiet[OF assms(1)]
      using assms
      by (cases "respondWith requestEvent response")
        (simp_all add: serveHttp_def respond_start_def o Inr)
  qed
qed




lemma elements_remove:
  "elements (Dlist.remove x xs) = filter (\<lambda>y. y \<noteq> x) (elements xs)"
proof -
  have "remove1 x (list_of_dlist xs) = filter (\<lambda>y. y \<noteq> x) (list_of_dlist xs)"
    by (simp add: distinct_remove1_removeAll removeAll_filter_not_eq eq_commute)
  then show ?thesis
    by (simp add: elements_def rev_filter)
qed

text \<open>
  C7. When \<open>respondWith\<close> fails, \<open>#respond\<close> returns after \<open>#closeHttpConn\<close> on the
  connection of the request. That step leaves the closed flag and the listeners as they
  were, removes this connection and no other from the tracked connections, and adds the
  one effect \<open>httpConn.close()\<close>. With a handler that returns and no other task
  running in between, this is all \<open>#respond\<close> changes besides the handler's effects
  and the send.
\<close>

theorem send_failure_closes_only_that_connection:
  assumes "respondWith requestEvent response = Some err"
  shows "respond_send requestEvent httpConn response (during # script) s =
       (Returned, closeHttpConn httpConn
          (interfere during (perform (RespondWith (request requestEvent) response) s))) \<and>
     closed (closeHttpConn httpConn t) = closed t \<and>
     listeners (closeHttpConn httpConn t) = listeners t \<and>
     elements (httpConnections (closeHttpConn httpConn t)) =
       filter (\<lambda>c. c \<noteq> httpConn) (elements (httpConnections t)) \<and>
     effects (closeHttpConn httpConn t) = effects t @ [HttpConnClose httpConn] \<and>
     (handler s (request requestEvent) connInfo = (fx, Inr response) \<longrightarrow>
        fst (respond requestEvent httpConn connInfo [[], []] s) = Returned \<and>
        closed (snd (respond requestEvent httpConn connInfo [[], []] s)) = closed s \<and>
        listeners (snd (respond requestEvent httpConn connInfo [[], []] s)) = listeners s \<and>
        elements (httpConnections (snd (respond requestEvent httpConn connInfo [[], []] s))) =
          filter (\<lambda>c. c \<noteq> httpConn) (elements (httpConnections s)) \<and>
        effects (snd (respond requestEvent httpConn connInfo [[], []] s)) =
          effects s @ fx @ [RespondWith (request requestEvent) response, HttpConnClose httpConn])"
proof -
  have a: "respond_send requestEvent httpConn response (during # script) s =
       (Returned, closeHttpConn httpConn
          (interfere during (perform (RespondWith (request requestEvent) response) s)))"
    for during script s
    using assms by (simp add: Let_def)
  have b: "respond requestEvent httpConn connInfo [[], []] s =
      (Returned, closeHttpConn httpConn
          (perform (RespondWith (request requestEvent) response) (performs fx s)))"
    if "handler s (request requestEvent) connInfo = (fx, Inr response)"
    unfolding respond_returning[OF that] a by simp
  show ?thesis
    using a b by (simp add: elements_remove)
qed

theorem send_failure_closes_only_that_connection_witness:
  "respondWith get_root_gone \<lparr>status = 200, body = ''Hello wora ld! aa''\<rparr> = Some BadResource \<and>
   handler example_server (request get_root_gone) (''l'', ''r'') =
     ([ConsoleLog ''Responding with Hello world!''],
      Inr \<lparr>status = 200, body = ''Hello wora ld! aa''\<rparr>) \<and>
   fst (respond get_root_gone 7 (''l'', ''r'') [[], []] example_server) = Returned \<and>
   closed (snd (respond get_root_gone 7 (''l'', ''r'') [[], []] example_server)) =
     closed example_server \<and>
   elements (listeners (snd (respond get_root_gone 7 (''l'', ''r'') [[], []] example_server))) = [1, 2] \<and>
   elements (httpConnections (snd (respond get_root_gone 7 (''l'', ''r'') [[], []] example_server))) = [8] \<and>
   effects (snd (respond get_root_gone 7 (''l'', ''r'') [[], []] example_server)) =
     [ConsoleLog ''Responding with Hello world!'',
      RespondWith ''GET /'' \<lparr>status = 200, body = ''Hello wora ld! aa''\<rparr>, HttpConnClose 7]"
proof -
  let ?ok = "\<lparr>status = 200, body = ''Hello wora ld! aa''\<rparr>"
  have f: "respondWith get_root_gone ?ok = Some BadResource"
    by (simp add: get_root_gone_def)
  have h: "handler example_server (request get_root_gone) (''l'', ''r'') =
     ([ConsoleLog ''Responding with Hello world!''], Inr ?ok)"
    by (simp add: example_server_def Server_def handleRequest_def)
  have g: "request get_root_gone = ''GET /''"
    by (simp add: get_root_gone_def)
  from send_failure_closes_only_that_connection[OF f, where httpConn = 7 and during = "[]"
      and script = "[]" and s = example_server and t = example_server
      and connInfo = "(''l'', ''r'')" and fx = "[ConsoleLog ''Responding with Hello world!'']"] f h
  show ?thesis
    by (simp add: example_server_fields g)
qed

subsection \<open>The exported function serve\<close>

lemma Server_fields [simp]:
  "\<not> closed (Server serverInit)"
  "port (Server serverInit) = init_port serverInit"
  "host (Server serverInit) = init_hostname serverInit"
  "listeners (Server serverInit) = Dlist.empty"
  "httpConnections (Server serverInit) = Dlist.empty"
  "effects (Server serverInit) = []"
  by (simp_all add: Server_def)

lemma serve_try_start: "\<not> closed s \<Longrightarrow> serve_try listener [] s = (Pending, s)"
  by (simp add: serve_try_def accept_def)

text \<open>
  Resuming the pending call gives what the call gives when it runs through: with the
  message suppressed, \<open>serve\<close> is \<open>listenAndServe\<close> on the new server.
\<close>

lemma serve_top_silent:
  assumes "opt_onListen options = OnListenNullish"
  shows "serve_top user_handler options Deno_listen script =
     listenAndServe Deno_listen script
       (Server \<lparr>init_port = Some (case opt_port options of None \<Rightarrow> 8000 | Some p \<Rightarrow> p),
                init_hostname = Some (case opt_hostname options of None \<Rightarrow> ''0.0.0.0'' | Some h \<Rightarrow> h),
                init_handler = user_handler, init_onError = opt_onError options\<rparr>)"
proof -
  let ?p = "case opt_port options of None \<Rightarrow> 8000 | Some p \<Rightarrow> p"
  let ?h = "case opt_hostname options of None \<Rightarrow> ''0.0.0.0'' | Some h \<Rightarrow> h"
  show ?thesis
  proof (cases "Deno_listen ?p ?h")
    case (Inl e)
    then show ?thesis
      using assms by (simp add: serve_top_def listenAndServe_def Let_def)
  next
    case (Inr listener)
    then show ?thesis
      using assms
      by (simp add: serve_top_def listenAndServe_def serve_def serve_try_start Let_def)
  qed
qed

text \<open>
  Up to the first await, \<open>serve\<close> without an \<open>onListen\<close> key has asked for the bind
  and printed the message, whether the bind succeeded or not.
\<close>

lemma serve_top_start_effects:
  assumes "opt_onListen options = NoOnListen"
  shows "effects (snd (serve_top user_handler options Deno_listen [])) =
     [Listen (case opt_port options of None \<Rightarrow> 8000 | Some p \<Rightarrow> p)
        (case opt_hostname options of None \<Rightarrow> ''0.0.0.0'' | Some h \<Rightarrow> h),
      ConsoleLog (listening_message
        (case opt_hostname options of None \<Rightarrow> ''0.0.0.0'' | Some h \<Rightarrow> h)
        (case opt_port options of None \<Rightarrow> 8000 | Some p \<Rightarrow> p))]"
proof -
  let ?p = "case opt_port options of None \<Rightarrow> 8000 | Some p \<Rightarrow> p"
  let ?h = "case opt_hostname options of None \<Rightarrow> ''0.0.0.0'' | Some h \<Rightarrow> h"
  show ?thesis
  proof (cases "Deno_listen ?p ?h")
    case (Inl e)
    then show ?thesis
      using assms by (simp add: serve_top_def listenAndServe_def Let_def)
  next
    case (Inr listener)
    then show ?thesis
      using assms
      by (simp add: serve_top_def listenAndServe_def serve_def serve_try_start Let_def)
  qed
qed

text \<open>
  C10. \<open>serve\<close> with no options, when \<open>Deno.listen\<close> fails with \<open>AddrInUse\<close>: it asks
  for port 8000 on \<open>0.0.0.0\<close>, prints \<open>Listening on http://localhost:8000/\<close> although
  nothing is bound, raises \<open>AddrInUse\<close>, and tracks no listener.
\<close>

theorem serve_top_prints_listening_though_bind_failed:
  "fst (serve_top handleRequest
          \<lparr>opt_port = None, opt_hostname = None, opt_onError = None, opt_onListen = NoOnListen\<rparr>
          (\<lambda>p hostname. Inl AddrInUse) script) = Threw AddrInUse \<and>
   effects (snd (serve_top handleRequest
          \<lparr>opt_port = None, opt_hostname = None, opt_onError = None, opt_onListen = NoOnListen\<rparr>
          (\<lambda>p hostname. Inl AddrInUse) script)) =
     [Listen 8000 ''0.0.0.0'', ConsoleLog ''Listening on http://localhost:8000/''] \<and>
   elements (listeners (snd (serve_top handleRequest
          \<lparr>opt_port = None, opt_hostname = None, opt_onError = None, opt_onListen = NoOnListen\<rparr>
          (\<lambda>p hostname. Inl AddrInUse) script))) = []"
  by (simp add: serve_top_def listenAndServe_def Let_def listening_message_def
      hostnameForDisplay_def elements_def)

subsection \<open>The application module\<close>

text \<open>
  C2. When the global scope does not bind \<open>Application\<close>, the evaluation of the module
  raises \<open>ReferenceError\<close> at \<open>new Application()\<close>; when it binds \<open>Application\<close> to a
  constructor that returns and does not bind \<open>Session\<close>, it raises at \<open>new Session()\<close>.
  In both cases \<open>serve\<close> is not called: no server exists. A server exists only when
  both names are bound to constructors that return.
\<close>

theorem main_module_raises_ReferenceError:
  "(globalThis ''Application'' = None \<longrightarrow>
      main_module globalThis Deno_listen script =
        (Threw (ReferenceError ''Application is not defined''), None)) \<and>
   (globalThis ''Application'' = Some None \<and> globalThis ''Session'' = None \<longrightarrow>
      main_module globalThis Deno_listen script =
        (Threw (ReferenceError ''Session is not defined''), None)) \<and>
   (snd (main_module globalThis Deno_listen script) \<noteq> None \<longrightarrow>
      globalThis ''Application'' = Some None \<and> globalThis ''Session'' = Some None)"
  by (auto simp: main_module_def new_global_def split: option.splits)

theorem main_module_raises_ReferenceError_witness:
  "deno_globals ''Application'' = None \<and>
   main_module deno_globals (\<lambda>p hostname. Inr 4) [] =
     (Threw (ReferenceError ''Application is not defined''), None) \<and>
   (deno_globals(''Application'' := Some None)) ''Application'' = Some None \<and>
   (deno_globals(''Application'' := Some None)) ''Session'' = None \<and>
   main_module (deno_globals(''Application'' := Some None)) (\<lambda>p hostname. Inr 4) [] =
     (Threw (ReferenceError ''Session is not defined''), None)"
proof -
  let ?g = "deno_globals(''Application'' := Some None)"
  have a: "deno_globals ''Application'' = None"
    by (simp add: deno_globals_def)
  have b: "?g ''Application'' = Some None"
    by simp
  have c: "?g ''Session'' = None"
    by (simp add: deno_globals_def)
  have 1: "main_module deno_globals (\<lambda>p hostname. Inr 4) [] =
     (Threw (ReferenceError ''Application is not defined''), None)"
    using main_module_raises_ReferenceError[of deno_globals "\<lambda>p hostname. Inr 4" "[]"] a
    by blast
  have 2: "main_module ?g (\<lambda>p hostname. Inr 4) [] =
     (Threw (ReferenceError ''Session is not defined''), None)"
    using main_module_raises_ReferenceError[of ?g "\<lambda>p hostname. Inr 4" "[]"] b c
    by blast
  from a b c 1 2 show ?thesis
    by (intro conjI)
qed

end
